theory Spec2Isabelle
  imports Complex_Main "HOL-Library.Sublist" "HOL-Library.Char_ord"
begin

section \<open>Characters and Python string operations\<close>

text \<open>
  Texts are Python \<open>str\<close> values. They are modelled as \<open>string\<close>, one \<open>char\<close> per code
  point, so the texts covered are those whose code points are below 256 (Latin-1). The
  character classes below are Python's Unicode classes restricted to that range:
  \<open>\d\<close> is the decimal digits, \<open>\s\<close> and \<open>str.strip\<close> use the same whitespace
  set, \<open>\w\<close> is the alphanumerics and the underscore. Characters are ordered by code
  point.
\<close>

definition is_digit :: "char \<Rightarrow> bool" where
  "is_digit c = (CHR ''0'' \<le> c \<and> c \<le> CHR ''9'')"

definition is_upper_az :: "char \<Rightarrow> bool" where
  "is_upper_az c = (CHR ''A'' \<le> c \<and> c \<le> CHR ''Z'')"

definition is_lower_az :: "char \<Rightarrow> bool" where
  "is_lower_az c = (CHR ''a'' \<le> c \<and> c \<le> CHR ''z'')"

definition is_space :: "char \<Rightarrow> bool" where
  "is_space c = ((CHR 0x09 \<le> c \<and> c \<le> CHR 0x0D) \<or> (CHR 0x1C \<le> c \<and> c \<le> CHR 0x20)
                 \<or> c = CHR 0x85 \<or> c = CHR 0xA0)"

definition is_word :: "char \<Rightarrow> bool" where
  "is_word c = (is_digit c \<or> is_upper_az c \<or> is_lower_az c \<or> c = CHR ''_''
                \<or> c = CHR 0xAA \<or> c = CHR 0xB2 \<or> c = CHR 0xB3 \<or> c = CHR 0xB5
                \<or> c = CHR 0xB9 \<or> c = CHR 0xBA \<or> (CHR 0xBC \<le> c \<and> c \<le> CHR 0xBE)
                \<or> (CHR 0xC0 \<le> c \<and> c \<le> CHR 0xD6) \<or> (CHR 0xD8 \<le> c \<and> c \<le> CHR 0xF6)
                \<or> CHR 0xF8 \<le> c)"

text \<open>\<open>str.isdigit\<close> also accepts the superscript digits.\<close>

definition str_isdigit :: "char \<Rightarrow> bool" where
  "str_isdigit c = (is_digit c \<or> c = CHR 0xB2 \<or> c = CHR 0xB3 \<or> c = CHR 0xB9)"

text \<open>
  Lower and upper case differ in the bit of value 32. The upper case of the micro sign
  and of y with diaeresis lies beyond Latin-1; no class of this program contains either,
  and they are left as they are.
\<close>

fun lower_char :: "char \<Rightarrow> char" where
  "lower_char (Char b0 b1 b2 b3 b4 b5 b6 b7) =
     (if is_upper_az (Char b0 b1 b2 b3 b4 b5 b6 b7)
         \<or> (CHR 0xC0 \<le> Char b0 b1 b2 b3 b4 b5 b6 b7 \<and> Char b0 b1 b2 b3 b4 b5 b6 b7 \<le> CHR 0xDE
            \<and> Char b0 b1 b2 b3 b4 b5 b6 b7 \<noteq> CHR 0xD7)
      then Char b0 b1 b2 b3 b4 True b6 b7
      else Char b0 b1 b2 b3 b4 b5 b6 b7)"

fun upper_char :: "char \<Rightarrow> char" where
  "upper_char (Char b0 b1 b2 b3 b4 b5 b6 b7) =
     (if is_lower_az (Char b0 b1 b2 b3 b4 b5 b6 b7)
         \<or> (CHR 0xE0 \<le> Char b0 b1 b2 b3 b4 b5 b6 b7 \<and> Char b0 b1 b2 b3 b4 b5 b6 b7 \<le> CHR 0xFE
            \<and> Char b0 b1 b2 b3 b4 b5 b6 b7 \<noteq> CHR 0xF7)
      then Char b0 b1 b2 b3 b4 False b6 b7
      else Char b0 b1 b2 b3 b4 b5 b6 b7)"

definition lower :: "string \<Rightarrow> string" where
  "lower s = map lower_char s"

definition strip :: "string \<Rightarrow> string" where
  "strip s = rev (dropWhile is_space (rev (dropWhile is_space s)))"

text \<open>\<open>sub in s\<close> of Python: \<open>sub\<close> occurs in \<open>s\<close> as a contiguous piece.\<close>

fun contains :: "string \<Rightarrow> string \<Rightarrow> bool" where
  "contains [] sub = (sub = [])"
| "contains (c # cs) sub = (if prefix sub (c # cs) then True else contains cs sub)"

declare contains.simps [simp del]

text \<open>\<open>text.find(sub)\<close>: the position of the first occurrence, if there is one.\<close>

fun find_pos :: "string \<Rightarrow> string \<Rightarrow> nat option" where
  "find_pos [] sub = (if sub = [] then Some 0 else None)"
| "find_pos (c # cs) sub =
     (if prefix sub (c # cs) then Some 0 else map_option Suc (find_pos cs sub))"


text \<open>
  \<open>s.replace(old, new)\<close>: every occurrence of \<open>old\<close>, left to right and without overlap,
  becomes \<open>new\<close>. With an empty \<open>old\<close> Python puts \<open>new\<close> before every character and at
  the end.
\<close>

function replace :: "string \<Rightarrow> string \<Rightarrow> string \<Rightarrow> string" where
  "replace s old new =
     (if old = [] then new @ concat (map (\<lambda>c. c # new) s)
      else case s of
             [] \<Rightarrow> []
           | c # cs \<Rightarrow> if prefix old s then new @ replace (drop (length old) s) old new
                      else c # replace cs old new)"
  by pat_completeness auto
termination
  by (relation "measure (\<lambda>(s, old, new). length s)") auto

declare replace.simps [simp del]

section \<open>Regular expressions with Python's backtracking semantics\<close>

text \<open>
  The patterns of the program use character classes, literals, sequence, alternation,
  greedy and lazy repetition of a character class, optional groups, \<open>\b\<close>, \<open>$\<close>,
  capturing groups and back-references. \<open>Rep g lo hi p\<close> repeats the class \<open>p\<close> between
  \<open>lo\<close> and \<open>hi\<close> times (\<open>None\<close>: no upper bound), greedily when \<open>g\<close> holds and lazily
  otherwise. \<open>Open n\<close> and \<open>Close n\<close> are the two ends of capturing group \<open>n\<close>.
\<close>

datatype re =
    Eps
  | Cls "char \<Rightarrow> bool"
  | Str string
  | Seq re re
  | Alt re re
  | Rep bool nat "nat option" "char \<Rightarrow> bool"
  | WordB
  | Eos
  | Open nat
  | Close nat
  | Back nat

definition Grp :: "nat \<Rightarrow> re \<Rightarrow> re" where
  "Grp n r = Seq (Open n) (Seq r (Close n))"

definition Opt :: "re \<Rightarrow> re" where
  "Opt r = Alt r Eps"

fun seqs :: "re list \<Rightarrow> re" where
  "seqs [] = Eps"
| "seqs [r] = r"
| "seqs (r # rs) = Seq r (seqs rs)"

fun alts :: "re list \<Rightarrow> re" where
  "alts [] = Eps"
| "alts [r] = r"
| "alts (r # rs) = Alt r (alts rs)"

text \<open>
  The state of a match attempt: the character before the current position (for \<open>\b\<close>),
  the input still to read, the input as it was where each open group began, and the
  text captured by each closed group.
\<close>

record mstate =
  prev :: "char option"
  rest :: string
  marks :: "(nat \<times> string) list"
  caps :: "(nat \<times> string) list"

text \<open>
  With \<open>re.IGNORECASE\<close> the matcher lowers the character and tests the class on it
  and on the upper case of that; a literal character matches when the lower cases agree.
\<close>

definition in_cls :: "bool \<Rightarrow> (char \<Rightarrow> bool) \<Rightarrow> char \<Rightarrow> bool" where
  "in_cls ic p c =
     (if ic then (if p (lower_char c) then True else p (upper_char (lower_char c))) else p c)"

definition same_char :: "bool \<Rightarrow> char \<Rightarrow> char \<Rightarrow> bool" where
  "same_char ic x c = (if ic then lower_char x = lower_char c else x = c)"

text \<open>\<open>eat ic s pv r\<close> reads the literal \<open>s\<close> from the input \<open>r\<close> and returns the last
  character read and the input left.\<close>

fun eat :: "bool \<Rightarrow> string \<Rightarrow> char option \<Rightarrow> string \<Rightarrow> (char option \<times> string) option" where
  "eat ic [] pv r = Some (pv, r)"
| "eat ic (x # xs) pv [] = None"
| "eat ic (x # xs) pv (c # cs) = (if same_char ic x c then eat ic xs (Some c) cs else None)"

lemma eat_length: "eat ic s pv r = Some (pv', r') \<Longrightarrow> length r' + length s = length r"
  by (induction ic s pv r rule: eat.induct) (auto split: if_splits)

definition at_boundary :: "mstate \<Rightarrow> bool" where
  "at_boundary st =
     ((case prev st of None \<Rightarrow> False | Some c \<Rightarrow> is_word c)
      \<noteq> (case rest st of [] \<Rightarrow> False | c # _ \<Rightarrow> is_word c))"

text \<open>Without \<open>re.MULTILINE\<close>, \<open>$\<close> holds at the end and before a final newline.\<close>

definition at_end :: "mstate \<Rightarrow> bool" where
  "at_end st = (rest st = [] \<or> rest st = [CHR 0x0A])"

definition close_group :: "nat \<Rightarrow> mstate \<Rightarrow> mstate" where
  "close_group n st =
     (case map_of (marks st) n of
        None \<Rightarrow> st
      | Some s0 \<Rightarrow> st\<lparr>caps := (n, take (length s0 - length (rest st)) s0) # caps st\<rparr>)"

definition dec :: "nat option \<Rightarrow> nat option" where
  "dec hi = map_option (\<lambda>h. h - 1) hi"

text \<open>
  \<open>go ic k st\<close> matches the expressions of \<open>k\<close> one after the other from \<open>st\<close> and
  returns the state after the first successful path in backtracking order: in an
  alternation the left branch is tried first; a greedy repetition tries one more
  character before it tries to stop, a lazy one the reverse.
\<close>

function go :: "bool \<Rightarrow> re list \<Rightarrow> mstate \<Rightarrow> mstate option" where
  "go ic [] st = Some st"
| "go ic (Eps # k) st = go ic k st"
| "go ic (Cls p # k) st =
     (case rest st of
        [] \<Rightarrow> None
      | c # cs \<Rightarrow> if in_cls ic p c then go ic k (st\<lparr>prev := Some c, rest := cs\<rparr>) else None)"
| "go ic (Str s # k) st =
     (case eat ic s (prev st) (rest st) of
        None \<Rightarrow> None
      | Some (pv, r) \<Rightarrow> go ic k (st\<lparr>prev := pv, rest := r\<rparr>))"
| "go ic (Seq a b # k) st = go ic (a # b # k) st"
| "go ic (Alt a b # k) st =
     (case go ic (a # k) st of Some r \<Rightarrow> Some r | None \<Rightarrow> go ic (b # k) st)"
| "go ic (Rep g lo hi p # k) st =
     (if g then
        (case (case rest st of
                 [] \<Rightarrow> None
               | c # cs \<Rightarrow>
                   if hi \<noteq> Some 0 \<and> in_cls ic p c
                   then go ic (Rep g (lo - 1) (dec hi) p # k) (st\<lparr>prev := Some c, rest := cs\<rparr>)
                   else None) of
           Some r \<Rightarrow> Some r
         | None \<Rightarrow> if lo = 0 then go ic k st else None)
      else
        (case (if lo = 0 then go ic k st else None) of
           Some r \<Rightarrow> Some r
         | None \<Rightarrow>
             (case rest st of
                [] \<Rightarrow> None
              | c # cs \<Rightarrow>
                  if hi \<noteq> Some 0 \<and> in_cls ic p c
                  then go ic (Rep g (lo - 1) (dec hi) p # k) (st\<lparr>prev := Some c, rest := cs\<rparr>)
                  else None)))"
| "go ic (WordB # k) st = (if at_boundary st then go ic k st else None)"
| "go ic (Eos # k) st = (if at_end st then go ic k st else None)"
| "go ic (Open n # k) st = go ic k (st\<lparr>marks := (n, rest st) # marks st\<rparr>)"
| "go ic (Close n # k) st = go ic k (close_group n st)"
| "go ic (Back n # k) st =
     (case map_of (caps st) n of
        None \<Rightarrow> None
      | Some s \<Rightarrow>
          (case eat False s (prev st) (rest st) of
             None \<Rightarrow> None
           | Some (pv, r) \<Rightarrow> go ic k (st\<lparr>prev := pv, rest := r\<rparr>)))"
  by pat_completeness auto
termination
  by (relation "measures [\<lambda>(ic, k, st). length (rest st),
                          \<lambda>(ic, k, st). sum_list (map (\<lambda>r. 2 * size r + 1) k)]")
     (auto simp: close_group_def split: option.splits dest!: eat_length)

text \<open>
  The equation of a repetition contains a repetition again; \<open>rep_more\<close> names the
  attempt to read one more character, so that the equations can be used for rewriting.
\<close>

declare go.simps [simp del]

definition rep_more :: "bool \<Rightarrow> bool \<Rightarrow> nat \<Rightarrow> nat option \<Rightarrow> (char \<Rightarrow> bool) \<Rightarrow> re list \<Rightarrow> mstate \<Rightarrow> mstate option" where
  "rep_more ic g lo hi p k st =
     (case rest st of
        [] \<Rightarrow> None
      | c # cs \<Rightarrow>
          if hi \<noteq> Some 0 \<and> in_cls ic p c
          then go ic (Rep g (lo - 1) (dec hi) p # k) (st\<lparr>prev := Some c, rest := cs\<rparr>)
          else None)"

lemma go_Rep:
  "go ic (Rep g lo hi p # k) st =
     (if g then (case rep_more ic g lo hi p k st of
                   Some r \<Rightarrow> Some r
                 | None \<Rightarrow> if lo = 0 then go ic k st else None)
      else (case (if lo = 0 then go ic k st else None) of
              Some r \<Rightarrow> Some r
            | None \<Rightarrow> rep_more ic g lo hi p k st))"
  unfolding rep_more_def by (rule go.simps(7))

lemmas go_eqs = go.simps(1-6) go_Rep go.simps(8-12)

lemma go_induct [case_names Nil Eps Cls Str Seq Alt Rep WordB Eos Open Close Back]:
  assumes "\<And>ic st. P ic [] st"
    and "\<And>ic k st. P ic k st \<Longrightarrow> P ic (Eps # k) st"
    and "\<And>ic p k st.
           (\<And>c cs. rest st = c # cs \<Longrightarrow> in_cls ic p c
               \<Longrightarrow> P ic k (st\<lparr>prev := Some c, rest := cs\<rparr>))
           \<Longrightarrow> P ic (Cls p # k) st"
    and "\<And>ic s k st.
           (\<And>pv r. eat ic s (prev st) (rest st) = Some (pv, r)
               \<Longrightarrow> P ic k (st\<lparr>prev := pv, rest := r\<rparr>))
           \<Longrightarrow> P ic (Str s # k) st"
    and "\<And>ic a b k st. P ic (a # b # k) st \<Longrightarrow> P ic (Seq a b # k) st"
    and "\<And>ic a b k st. P ic (a # k) st \<Longrightarrow> P ic (b # k) st \<Longrightarrow> P ic (Alt a b # k) st"
    and "\<And>ic g lo hi p k st.
           (\<And>c cs. rest st = c # cs \<Longrightarrow> hi \<noteq> Some 0 \<Longrightarrow> in_cls ic p c
               \<Longrightarrow> rep_more ic g lo hi p k st
                     = go ic (Rep g (lo - 1) (dec hi) p # k) (st\<lparr>prev := Some c, rest := cs\<rparr>)
               \<Longrightarrow> P ic (Rep g (lo - 1) (dec hi) p # k) (st\<lparr>prev := Some c, rest := cs\<rparr>))
           \<Longrightarrow> (lo = 0 \<Longrightarrow> P ic k st)
           \<Longrightarrow> P ic (Rep g lo hi p # k) st"
    and "\<And>ic k st. P ic k st \<Longrightarrow> P ic (WordB # k) st"
    and "\<And>ic k st. P ic k st \<Longrightarrow> P ic (Eos # k) st"
    and "\<And>ic n k st. P ic k (st\<lparr>marks := (n, rest st) # marks st\<rparr>) \<Longrightarrow> P ic (Open n # k) st"
    and "\<And>ic n k st. P ic k (close_group n st) \<Longrightarrow> P ic (Close n # k) st"
    and "\<And>ic n k st.
           (\<And>s pv r. map_of (caps st) n = Some s \<Longrightarrow> eat False s (prev st) (rest st) = Some (pv, r)
               \<Longrightarrow> P ic k (st\<lparr>prev := pv, rest := r\<rparr>))
           \<Longrightarrow> P ic (Back n # k) st"
  shows "P ic k st"
proof -
  define f :: "re list \<times> mstate \<Rightarrow> nat \<times> nat" where
    "f = (\<lambda>(k, st). (length (rest st), sum_list (map (\<lambda>r. 2 * size r + 1) k)))"
  have wf: "wf (inv_image (less_than <*lex*> less_than) f)"
    by (intro wf_inv_image wf_lex_prod wf_less_than)
  have "P ic (fst x) (snd x)" for x
  proof (induction x rule: wf_induct_rule [OF wf])
    case (1 x)
    obtain k st where x: "x = (k, st)"
      by (cases x)
    have IH: "P ic k' st'"
      if "length (rest st') < length (rest st)
          \<or> (length (rest st') = length (rest st)
              \<and> sum_list (map (\<lambda>r. 2 * size r + 1) k') < sum_list (map (\<lambda>r. 2 * size r + 1) k))"
      for k' st'
      using 1 [of "(k', st')"] that by (auto simp: x f_def)
    have "P ic k st"
    proof (cases k)

    case Nil
    then show ?thesis by (simp add: assms(1))
  next
    case (Cons r k')
    show ?thesis
    proof (cases r)
      case Eps
      show ?thesis unfolding Cons Eps by (rule assms(2), rule IH, auto simp: Cons Eps)
    next
      case (Cls p)
      show ?thesis unfolding Cons Cls by (rule assms(3), rule IH, auto simp: Cons Cls)
    next
      case (Str s)
      show ?thesis unfolding Cons Str by (rule assms(4), rule IH, auto simp: Cons Str dest!: eat_length)
    next
      case (Seq a b)
      show ?thesis unfolding Cons Seq by (rule assms(5), rule IH, auto simp: Cons Seq)
    next
      case (Alt a b)
      show ?thesis unfolding Cons Alt by (rule assms(6); rule IH, auto simp: Cons Alt)
    next
      case (Rep g lo hi p)
      show ?thesis unfolding Cons Rep by (rule assms(7); rule IH, auto simp: Cons Rep)
    next
      case WordB
      show ?thesis unfolding Cons WordB by (rule assms(8), rule IH, auto simp: Cons WordB)
    next
      case Eos
      show ?thesis unfolding Cons Eos by (rule assms(9), rule IH, auto simp: Cons Eos)
    next
      case (Open n)
      show ?thesis unfolding Cons Open by (rule assms(10), rule IH, auto simp: Cons Open)
    next
      case (Close n)
      show ?thesis unfolding Cons Close by (rule assms(11), rule IH, auto simp: Cons Close close_group_def split: option.splits)
    next
      case (Back n)
      show ?thesis unfolding Cons Back by (rule assms(12), rule IH, auto simp: Cons Back dest!: eat_length)
    qed
  qed
    with x show ?case by simp
  qed
  from this [of "(k, st)"] show ?thesis by simp
qed



lemma eat_suffix: "eat ic s pv r = Some (pv', r') \<Longrightarrow> suffix r' r"
  by (induction ic s pv r rule: eat.induct) (auto split: if_splits intro: suffix_ConsI)

lemma rep_more_Some:
  "rep_more ic g lo hi p k st = Some st' \<Longrightarrow>
     \<exists>c cs. rest st = c # cs \<and> hi \<noteq> Some 0 \<and> in_cls ic p c
        \<and> rep_more ic g lo hi p k st
            = go ic (Rep g (lo - 1) (dec hi) p # k) (st\<lparr>prev := Some c, rest := cs\<rparr>)"
  by (auto simp: rep_more_def split: list.splits if_splits)

lemma go_Rep_cases:
  assumes "go ic (Rep g lo hi p # k) st = Some st'"
  obtains (more) c cs where "rest st = c # cs" "hi \<noteq> Some 0" "in_cls ic p c"
      "rep_more ic g lo hi p k st
         = go ic (Rep g (lo - 1) (dec hi) p # k) (st\<lparr>prev := Some c, rest := cs\<rparr>)"
      "go ic (Rep g (lo - 1) (dec hi) p # k) (st\<lparr>prev := Some c, rest := cs\<rparr>) = Some st'"
    | (stop) "lo = 0" "go ic k st = Some st'"
proof -
  from assms consider (a) "rep_more ic g lo hi p k st = Some st'"
    | (b) "lo = 0" "go ic k st = Some st'"
    by (auto simp: go_eqs split: option.splits if_splits)
  then show ?thesis
  proof cases
    case a
    from rep_more_Some [OF a] a show ?thesis
      by (auto intro: more)
  next
    case b
    then show ?thesis by (rule stop)
  qed
qed

lemma go_suffix: "go ic k st = Some st' \<Longrightarrow> suffix (rest st') (rest st)"
proof (induction ic k st arbitrary: st' rule: go_induct)
  case (Cls ic p k st)
  then show ?case
    by (fastforce simp: go_eqs split: list.splits if_splits intro: suffix_ConsI)
next
  case (Str ic s k st)
  then show ?case
    by (fastforce simp: go_eqs split: option.splits dest: eat_suffix intro: suffix_order.trans)
next
  case (Alt ic a b k st)
  then show ?case
    by (auto simp: go_eqs split: option.splits)
next
  case (Rep ic g lo hi p k st)
  from Rep.prems show ?case
  proof (cases rule: go_Rep_cases)
    case (more c cs)
    from Rep.IH(1) [OF more(1-4) more(5)] more(1) show ?thesis
      by (simp add: suffix_ConsI)
  next
    case stop
    then show ?thesis
      by (rule Rep.IH(2))
  qed
next
  case (Close ic n k st)
  then show ?case
    by (fastforce simp: go_eqs close_group_def split: option.splits)
next
  case (Back ic n k st)
  then show ?case
    by (fastforce simp: go_eqs split: option.splits dest: eat_suffix intro: suffix_order.trans)
qed (auto simp: go_eqs split: if_splits)

section \<open>Searching, iterating, substituting and splitting\<close>

definition start_state :: "char option \<Rightarrow> string \<Rightarrow> mstate" where
  "start_state pv s = \<lparr>prev = pv, rest = s, marks = [], caps = []\<rparr>"

text \<open>A match is the input at the position where it starts, with the state at its end.\<close>

type_synonym rmatch = "string \<times> mstate"

definition group0 :: "rmatch \<Rightarrow> string" where
  "group0 m = take (length (fst m) - length (rest (snd m))) (fst m)"

definition group :: "nat \<Rightarrow> rmatch \<Rightarrow> string" where
  "group n m = (case map_of (caps (snd m)) n of None \<Rightarrow> [] | Some s \<Rightarrow> s)"

text \<open>\<open>re.search\<close>: the first position, from the left, where the expression matches.\<close>

fun search_from :: "bool \<Rightarrow> re \<Rightarrow> char option \<Rightarrow> string \<Rightarrow> rmatch option" where
  "search_from ic r pv [] =
     (case go ic [r] (start_state pv []) of None \<Rightarrow> None | Some st \<Rightarrow> Some ([], st))"
| "search_from ic r pv (c # cs) =
     (case go ic [r] (start_state pv (c # cs)) of
        Some st \<Rightarrow> Some (c # cs, st)
      | None \<Rightarrow> search_from ic r (Some c) cs)"

definition re_search :: "bool \<Rightarrow> re \<Rightarrow> string \<Rightarrow> rmatch option" where
  "re_search ic r s = search_from ic r None s"

definition found :: "rmatch option \<Rightarrow> bool" where
  "found m = (m \<noteq> None)"

text \<open>
  The scan behind \<open>re.finditer\<close>, \<open>re.sub\<close> and \<open>re.split\<close>: the input cut into the
  characters no match covers (\<open>Inl\<close>) and the matches (\<open>Inr\<close>), from left to right and
  without overlap. Every pattern of this program consumes at least one character; an
  empty match is recorded and the scan moves one character on.
\<close>

function re_scan :: "bool \<Rightarrow> re \<Rightarrow> char option \<Rightarrow> string \<Rightarrow> (char + rmatch) list" where
  "re_scan ic r pv s =
     (case go ic [r] (start_state pv s) of
        Some st \<Rightarrow>
          if length (rest st) < length s then Inr (s, st) # re_scan ic r (prev st) (rest st)
          else (case s of
                  [] \<Rightarrow> [Inr (s, st)]
                | c # cs \<Rightarrow> Inr (s, st) # Inl c # re_scan ic r (Some c) cs)
      | None \<Rightarrow>
          (case s of
             [] \<Rightarrow> []
           | c # cs \<Rightarrow> Inl c # re_scan ic r (Some c) cs))"
  by pat_completeness auto
termination
  by (relation "measure (\<lambda>(ic, r, pv, s). length s)") auto

declare re_scan.simps [simp del]

fun hits :: "(char + rmatch) list \<Rightarrow> rmatch list" where
  "hits [] = []"
| "hits (Inl c # ts) = hits ts"
| "hits (Inr m # ts) = m # hits ts"

definition finditer :: "bool \<Rightarrow> re \<Rightarrow> string \<Rightarrow> rmatch list" where
  "finditer ic r s = hits (re_scan ic r None s)"

fun subst :: "(rmatch \<Rightarrow> string) \<Rightarrow> (char + rmatch) list \<Rightarrow> string" where
  "subst f [] = []"
| "subst f (Inl c # ts) = c # subst f ts"
| "subst f (Inr m # ts) = f m @ subst f ts"

definition re_sub :: "bool \<Rightarrow> re \<Rightarrow> (rmatch \<Rightarrow> string) \<Rightarrow> string \<Rightarrow> string" where
  "re_sub ic r f s = subst f (re_scan ic r None s)"

fun pieces :: "(char + rmatch) list \<Rightarrow> string list" where
  "pieces [] = [[]]"
| "pieces (Inl c # ts) = (case pieces ts of [] \<Rightarrow> [[c]] | p # ps \<Rightarrow> (c # p) # ps)"
| "pieces (Inr m # ts) = [] # pieces ts"

definition re_split :: "bool \<Rightarrow> re \<Rightarrow> string \<Rightarrow> string list" where
  "re_split ic r s = pieces (re_scan ic r None s)"


section \<open>The address parser (\<open>geo_ner/address_parser.py\<close>)\<close>

subsection \<open>Character classes and patterns\<close>

definition one_of :: "string \<Rightarrow> char \<Rightarrow> bool" where
  "one_of s c = (c \<in> set s)"

definition none_of :: "string \<Rightarrow> char \<Rightarrow> bool" where
  "none_of s c = (c \<notin> set s)"

definition is_alpha_az :: "char \<Rightarrow> bool" where
  "is_alpha_az c = (is_upper_az c \<or> is_lower_az c)"

text \<open>\<open>[A-Za-z0-9\s,.-]\<close>, \<open>[A-Za-z\s]\<close>, \<open>[,\s]\<close> and \<open>[A-Za-z0-9-]\<close>.\<close>

definition cls_street :: "char \<Rightarrow> bool" where
  "cls_street c = (is_alpha_az c \<or> is_digit c \<or> is_space c \<or> one_of '',.-'' c)"

definition cls_alpha_space :: "char \<Rightarrow> bool" where
  "cls_alpha_space c = (is_alpha_az c \<or> is_space c)"

definition cls_comma_space :: "char \<Rightarrow> bool" where
  "cls_comma_space c = (c = CHR '','' \<or> is_space c)"

definition cls_unit :: "char \<Rightarrow> bool" where
  "cls_unit c = (is_alpha_az c \<or> is_digit c \<or> c = CHR ''-'')"

text \<open>\<open>X\.?\<close>: a literal and an optional full stop.\<close>

definition dotq :: "string \<Rightarrow> re" where
  "dotq s = Seq (Str s) (Opt (Str ''.''))"

text \<open>The street-suffix alternatives, in the order of the source.\<close>

definition suffix_base :: "re list" where
  "suffix_base =
     [Str ''Street'', dotq ''St'', Str ''Avenue'', dotq ''Ave'', Str ''Road'', dotq ''Rd'',
      Str ''Lane'', dotq ''Ln'', Str ''Drive'', dotq ''Dr'', Str ''Boulevard'', dotq ''Blvd'']"

definition suffix_more :: "re list" where
  "suffix_more =
     [Str ''Circle'', dotq ''Cir'', Str ''Court'', dotq ''Ct'', Str ''Place'', dotq ''Pl'',
      Str ''Way'', Str ''Parkway'', dotq ''Pkwy'']"

definition suffix_highway :: "re list" where
  "suffix_highway = [Str ''Highway'', dotq ''Hwy'']"

definition state_names :: "string list" where
  "state_names =
     [''Alabama'', ''Alaska'', ''Arizona'', ''Arkansas'', ''California'', ''Colorado'',
      ''Connecticut'', ''Delaware'', ''Florida'', ''Georgia'', ''Hawaii'', ''Idaho'',
      ''Illinois'', ''Indiana'', ''Iowa'', ''Kansas'', ''Kentucky'', ''Louisiana'',
      ''Maine'', ''Maryland'', ''Massachusetts'', ''Michigan'', ''Minnesota'',
      ''Mississippi'', ''Missouri'', ''Montana'', ''Nebraska'', ''Nevada'',
      ''New Hampshire'', ''New Jersey'', ''New Mexico'', ''New York'', ''North Carolina'',
      ''North Dakota'', ''Ohio'', ''Oklahoma'', ''Oregon'', ''Pennsylvania'',
      ''Rhode Island'', ''South Carolina'', ''South Dakota'', ''Tennessee'', ''Texas'',
      ''Utah'', ''Vermont'', ''Virginia'', ''Washington'', ''West Virginia'',
      ''Wisconsin'', ''Wyoming'']"

text \<open>\<open>\d{5}(?:-\d{4})?\<close>\<close>

definition zip_re :: re where
  "zip_re = Seq (Rep True 5 (Some 5) is_digit)
                (Opt (Seq (Str ''-'') (Rep True 4 (Some 4) is_digit)))"

text \<open>\<open>\b\d{1,5}\s+[A-Za-z0-9\s,.-]+?\<close>, the head of the first two tiers and of the
  address-line extraction.\<close>

definition number_street_head :: "re list" where
  "number_street_head =
     [WordB, Rep True 1 (Some 5) is_digit, Rep True 1 None is_space,
      Rep False 1 None cls_street]"

text \<open>\<open>[^.!?]*?[A-Za-z\s]+[,\s]+\<close>, then the state, then \<open>\s+\<close> and the ZIP code.\<close>

definition city_state_zip_tail :: "re \<Rightarrow> re list" where
  "city_state_zip_tail state =
     [Rep False 0 None (none_of ''.!?''), Rep True 1 None cls_alpha_space,
      Rep True 1 None cls_comma_space, state, Rep True 1 None is_space, zip_re]"

definition state_abbrev :: re where
  "state_abbrev = Rep True 2 (Some 2) is_upper_az"

definition pattern_full :: re where
  "pattern_full =
     seqs (number_street_head
           @ [alts (suffix_base @ suffix_more @ suffix_highway), WordB]
           @ city_state_zip_tail (alts (state_abbrev # map Str state_names)))"

definition pattern_suite :: re where
  "pattern_suite =
     seqs (number_street_head
           @ [alts (suffix_base @ suffix_more),
              Opt (seqs [Rep True 0 None is_space, Opt (Str '',''), Rep True 0 None is_space,
                         alts [Str ''Suite'', dotq ''Ste'', dotq ''Apt'', Str ''Apartment'',
                               Str ''Unit'', Str ''#''],
                         Rep True 0 None is_space, Rep True 1 None cls_unit])]
           @ city_state_zip_tail state_abbrev)"

definition pattern_po_box :: re where
  "pattern_po_box =
     seqs ([WordB,
            Alt (seqs [dotq ''P'', dotq ''O'', Rep True 1 None is_space, Str ''Box''])
                (seqs [Str ''Post'', Rep True 1 None is_space, Str ''Office'',
                       Rep True 1 None is_space, Str ''Box'']),
            Rep True 1 None is_space, Rep True 1 None is_digit]
           @ city_state_zip_tail state_abbrev)"

definition pattern_simple :: re where
  "pattern_simple =
     seqs [WordB, Rep True 1 (Some 5) is_digit, Rep True 1 None is_space, Cls is_alpha_az,
           Rep True 5 (Some 50) cls_street, alts suffix_base]"

definition address_patterns :: "re list" where
  "address_patterns = [pattern_full, pattern_suite, pattern_po_box, pattern_simple]"

text \<open>\<open>[,;]\s*$\<close>, \<open>[.!?]+\<close>, \<open>\b\d{1,5}\s\<close>, the street words of the sentence
  rule, and \<open>\s+\<close>.\<close>

definition trailing_punct :: re where
  "trailing_punct = seqs [Cls (one_of '',;''), Rep True 0 None is_space, Eos]"

definition sentence_end :: re where
  "sentence_end = Rep True 1 None (one_of ''.!?'')"

definition number_space :: re where
  "number_space = seqs [WordB, Rep True 1 (Some 5) is_digit, Cls is_space]"

definition street_word :: re where
  "street_word =
     seqs [WordB,
           alts (map Str [''Street'', ''St'', ''Avenue'', ''Ave'', ''Road'', ''Rd'', ''Lane'',
                          ''Ln'', ''Drive'', ''Dr'', ''Boulevard'', ''Blvd'']),
           WordB]"

definition spaces :: re where
  "spaces = Rep True 1 None is_space"

subsection \<open>\<open>find_address_candidates\<close>\<close>

text \<open>
  The flags \<open>re.MULTILINE\<close> and \<open>re.DOTALL\<close> of the source change \<open>^\<close>, \<open>$\<close> and
  \<open>.\<close> only, which the four patterns do not use; \<open>re.IGNORECASE\<close> is the first
  argument of the matcher.
\<close>

definition clean_candidate :: "string \<Rightarrow> string" where
  "clean_candidate m = re_sub False trailing_punct (\<lambda>_. []) (strip m)"

definition pattern_candidates :: "string \<Rightarrow> re \<Rightarrow> string list" where
  "pattern_candidates text pat =
     filter (\<lambda>c. 15 < length c) (map (\<lambda>m. clean_candidate (group0 m)) (finditer True pat text))"

definition sentence_ok :: "string \<Rightarrow> bool" where
  "sentence_ok s =
     (20 < length s \<and> found (re_search False number_space s)
      \<and> found (re_search True street_word s))"

definition sentence_candidates :: "string \<Rightarrow> string list" where
  "sentence_candidates text =
     filter sentence_ok (map strip (re_split False sentence_end text))"

definition normalize :: "string \<Rightarrow> string" where
  "normalize c = re_sub False spaces (\<lambda>_. '' '') (strip (lower c))"

fun unique_loop :: "string set \<Rightarrow> string list \<Rightarrow> string list" where
  "unique_loop seen [] = []"
| "unique_loop seen (c # cs) =
     (if normalize c \<notin> seen \<and> 15 < length c
      then c # unique_loop (insert (normalize c) seen) cs
      else unique_loop seen cs)"

definition pooled_candidates :: "string \<Rightarrow> string list" where
  "pooled_candidates text =
     concat (map (pattern_candidates text) address_patterns) @ sentence_candidates text"

definition find_address_candidates :: "string \<Rightarrow> string list" where
  "find_address_candidates text = unique_loop {} (pooled_candidates text)"


subsection \<open>Responses of the recognition service\<close>

text \<open>
  The exceptions the code can meet. \<open>RequestsJSONDecodeError\<close> is the decoding error of
  the HTTP library, which is both a \<open>RequestException\<close> and a \<open>JSONDecodeError\<close>.
\<close>

datatype exn =
    RequestException
  | JSONDecodeError
  | RequestsJSONDecodeError
  | AttributeError
  | TypeError
  | ValueError
  | OtherError

text \<open>
  A response is the dictionary the service returns, or the one the offline scorer
  builds. The address is a dictionary of strings and the entities are a list, as the
  service documents them; for these a key that is missing or null is \<open>None\<close>.

  The value under \<open>score\<close> is read with \<open>get('score', 0)\<close> and compared with 0.5, so
  three cases are kept apart: the key is absent (the default 0 is taken), the value is a
  number (a JSON boolean compares as 1 or 0 and counts as one), or the key is present
  with a value that no number is (null, a string, a list), for which the comparison
  raises \<open>TypeError\<close>. The sums of the offline scorer are taken in exact arithmetic.
\<close>

datatype score_value = Absent | Number real | NotNumber

record address =
  address_line1 :: "string option"
  city_locality :: "string option"
  state_province :: "string option"
  postal_code :: "string option"
  country_code :: "string option"

record entity =
  entity_type :: "string option"
  start_index :: "int option"
  end_index :: "int option"

record response =
  score :: score_value
  address :: "address option"
  entities :: "entity list option"

text \<open>Python's truth value of an optional string: missing, null and empty are false.\<close>

definition truthy :: "string option \<Rightarrow> bool" where
  "truthy v = (case v of None \<Rightarrow> False | Some s \<Rightarrow> s \<noteq> [])"

subsection \<open>\<open>_mock_address_validation\<close>\<close>

text \<open>\<open>\b\d{1,5}\b\<close>\<close>

definition number_re :: re where
  "number_re = seqs [WordB, Rep True 1 (Some 5) is_digit, WordB]"

text \<open>\<open>\b(?:Street|St\.?|...|Blvd\.?)\b\<close>\<close>

definition street_re :: re where
  "street_re = seqs [WordB, alts suffix_base, WordB]"

text \<open>\<open>\b[A-Za-z\s]+,\s*[A-Z]{2}\s+\d{5}(?:-\d{4})?\b\<close> for the signal, and the same
  expression with its three groups for the extraction.\<close>

definition csz_test_re :: re where
  "csz_test_re =
     seqs [WordB, Rep True 1 None cls_alpha_space, Str '','', Rep True 0 None is_space,
           state_abbrev, Rep True 1 None is_space, zip_re, WordB]"

definition csz_re :: re where
  "csz_re =
     seqs [WordB, Grp 1 (Rep True 1 None cls_alpha_space), Str '','', Rep True 0 None is_space,
           Grp 2 state_abbrev, Rep True 1 None is_space, Grp 3 zip_re, WordB]"

text \<open>\<open>\bP\.?O\.?\s+Box\s+\d+\b\<close>\<close>

definition po_box_re :: re where
  "po_box_re =
     seqs [WordB, dotq ''P'', dotq ''O'', Rep True 1 None is_space, Str ''Box'',
           Rep True 1 None is_space, Rep True 1 None is_digit, WordB]"

text \<open>The address line: the head of the tiers and a street suffix.\<close>

definition addr_line_re :: re where
  "addr_line_re = seqs (number_street_head @ [alts (suffix_base @ suffix_more)])"

definition has_number :: "string \<Rightarrow> bool" where
  "has_number text = found (re_search False number_re text)"

definition has_street :: "string \<Rightarrow> bool" where
  "has_street text = found (re_search True street_re text)"

definition has_city_state_zip :: "string \<Rightarrow> bool" where
  "has_city_state_zip text = found (re_search False csz_test_re text)"

definition has_po_box :: "string \<Rightarrow> bool" where
  "has_po_box text = found (re_search True po_box_re text)"

definition mock_score :: "string \<Rightarrow> real" where
  "mock_score text =
     0 + (if has_number text then 3 / 10 else 0) + (if has_street text then 4 / 10 else 0)
       + (if has_city_state_zip text then 3 / 10 else 0) + (if has_po_box text then 5 / 10 else 0)"

definition mock_address :: "string \<Rightarrow> address" where
  "mock_address text =
     (let address_line1 = (case re_search True addr_line_re text of
                             None \<Rightarrow> [] | Some m \<Rightarrow> strip (group0 m));
          csz = re_search False csz_re text
      in \<lparr>address_line1 = Some address_line1,
          city_locality = Some (case csz of None \<Rightarrow> [] | Some m \<Rightarrow> strip (group 1 m)),
          state_province = Some (case csz of None \<Rightarrow> [] | Some m \<Rightarrow> group 2 m),
          postal_code = Some (case csz of None \<Rightarrow> [] | Some m \<Rightarrow> group 3 m),
          country_code = Some ''US''\<rparr>)"

definition mock_address_validation :: "string \<Rightarrow> response option" where
  "mock_address_validation text =
     (if (has_number text \<and> has_street text) \<or> has_po_box text
      then Some \<lparr>score = Number (mock_score text), address = Some (mock_address text),
                 entities = None\<rparr>
      else None)"

subsection \<open>\<open>is_valid_address\<close>\<close>

text \<open>
  The last line is \<open>has_additional_component and score >= confidence_threshold\<close>: the
  score is compared only when an additional component is there, and the comparison
  raises on a value that is no number.
\<close>

definition is_valid_address :: "response \<Rightarrow> exn + bool" where
  "is_valid_address parsed_response =
     (case address parsed_response of
        None \<Rightarrow> Inr False
      | Some a \<Rightarrow>
          if \<not> truthy (address_line1 a) then Inr False
          else (let has_additional_component =
                      (truthy (city_locality a) \<or> truthy (state_province a)
                       \<or> truthy (postal_code a))
                in if \<not> has_additional_component then Inr False
                   else (case score parsed_response of
                           Absent \<Rightarrow> Inr ((0 :: real) \<ge> 1 / 2)
                         | Number x \<Rightarrow> Inr (x \<ge> 1 / 2)
                         | NotNumber \<Rightarrow> Inl TypeError)))"


subsection \<open>\<open>parse_address_with_shipengine\<close>\<close>

definition is_request_exception :: "exn \<Rightarrow> bool" where
  "is_request_exception e = (e = RequestException \<or> e = RequestsJSONDecodeError)"

definition is_json_decode_error :: "exn \<Rightarrow> bool" where
  "is_json_decode_error e = (e = JSONDecodeError \<or> e = RequestsJSONDecodeError)"

text \<open>
  What \<open>response.json()\<close> returns: a value that is false in Python (null, an empty
  dictionary), a true value that is no dictionary, or a dictionary. In a dictionary
  \<open>address = None\<close> stands for a missing, null or empty address.
\<close>

datatype payload = Falsy | NotADict | Dict response

record http_response =
  status_code :: nat
  json :: "exn + payload"

text \<open>The network: what \<open>requests.put\<close> does for a URL and a text, within its timeout.\<close>

type_synonym net = "string \<Rightarrow> string \<Rightarrow> exn + http_response"

record parser =
  api_key :: string
  base_url :: string
  mock_mode :: bool

definition init :: "string \<Rightarrow> string \<Rightarrow> bool \<Rightarrow> exn + parser" where
  "init key url mock =
     (if key = [] \<and> \<not> mock then Inl ValueError
      else Inr \<lparr>api_key = key, base_url = url, mock_mode = mock\<rparr>)"

text \<open>The two \<open>except\<close> clauses, in their order.\<close>

definition handle :: "exn \<Rightarrow> string \<Rightarrow> exn + response option" where
  "handle e text =
     (if is_request_exception e then Inr (mock_address_validation text)
      else if is_json_decode_error e then Inr None
      else Inl e)"

definition parse_address_with_shipengine ::
    "parser \<Rightarrow> net \<Rightarrow> string \<Rightarrow> exn + response option" where
  "parse_address_with_shipengine self net text =
     (if mock_mode self then Inr (mock_address_validation text)
      else case net (base_url self @ ''/v1/addresses/recognize'') text of
             Inl e \<Rightarrow> handle e text
           | Inr resp \<Rightarrow>
               if status_code resp = 200 then
                 (case json resp of
                    Inl e \<Rightarrow> handle e text
                  | Inr Falsy \<Rightarrow> Inr None
                  | Inr NotADict \<Rightarrow> handle AttributeError text
                  | Inr (Dict result) \<Rightarrow>
                      if address result \<noteq> None then Inr (Some result) else Inr None)
               else if status_code resp = 402 then Inr (mock_address_validation text)
               else if status_code resp = 401 then Inr (mock_address_validation text)
               else Inr None)"

subsection \<open>\<open>_extract_address_text_from_entities\<close>\<close>

text \<open>\<open>s[a:b]\<close> with Python's treatment of negative and out-of-range bounds.\<close>

definition clamp_index :: "nat \<Rightarrow> int \<Rightarrow> nat" where
  "clamp_index n i = (if i < 0 then nat (max (i + int n) 0) else min (nat i) n)"

definition py_slice :: "string \<Rightarrow> int \<Rightarrow> int \<Rightarrow> string" where
  "py_slice s a b =
     (let i = clamp_index (length s) a; j = clamp_index (length s) b
      in take (j - i) (drop i s))"

definition address_entity_types :: "string list" where
  "address_entity_types =
     [''address'', ''address_line'', ''city_locality'', ''state_province'', ''postal_code'']"

fun entity_span :: "entity \<Rightarrow> (int \<times> int) option" where
  "entity_span e =
     (case entity_type e of
        None \<Rightarrow> None
      | Some t \<Rightarrow>
          if t \<in> set address_entity_types then
            (case (start_index e, end_index e) of
               (Some a, Some b) \<Rightarrow> Some (a, b)
             | _ \<Rightarrow> None)
          else None)"

definition extract_address_text_from_entities :: "response \<Rightarrow> string \<Rightarrow> string option" where
  "extract_address_text_from_entities parsed_response original_text =
     (case entities parsed_response of
        None \<Rightarrow> None
      | Some es \<Rightarrow>
          (case List.map_filter entity_span es of
             [] \<Rightarrow> None
           | sp # sps \<Rightarrow>
               (let min_start = fold min (map fst sps) (fst sp);
                    max_end = fold max (map snd sps) (snd sp);
                    address_text = strip (py_slice original_text min_start max_end)
                in if 10 < length address_text \<and> list_ex str_isdigit address_text
                   then Some address_text else None)))"

subsection \<open>\<open>tag_addresses_in_text\<close>\<close>

definition wrap :: "string \<Rightarrow> string" where
  "wrap c = ''<address>'' @ c @ ''</address>''"

text \<open>\<open>parsed_response and self.is_valid_address(parsed_response)\<close>\<close>

definition valid_response :: "response option \<Rightarrow> exn + bool" where
  "valid_response pr = (case pr of None \<Rightarrow> Inr False | Some r \<Rightarrow> is_valid_address r)"

text \<open>The calls the tagger makes, in their order: the scanner on a text, the validator
  on a text.\<close>

datatype event = Scan string | Validate string

text \<open>The loop over the candidates; an exception of the validator or of the validity
  test ends it.\<close>

fun tag_loop ::
    "parser \<Rightarrow> net \<Rightarrow> string list \<Rightarrow> string \<Rightarrow> event list \<Rightarrow> (exn + string) \<times> event list" where
  "tag_loop self net [] tagged_text tr = (Inr tagged_text, tr)"
| "tag_loop self net (candidate # cs) tagged_text tr =
     (case parse_address_with_shipengine self net candidate of
        Inl e \<Rightarrow> (Inl e, tr @ [Validate candidate])
      | Inr parsed_response \<Rightarrow>
          (case valid_response parsed_response of
             Inl e \<Rightarrow> (Inl e, tr @ [Validate candidate])
           | Inr valid \<Rightarrow>
               tag_loop self net cs
                 (if valid
                  then (if \<not> contains tagged_text (wrap candidate)
                        then replace tagged_text candidate (wrap candidate)
                        else tagged_text)
                  else tagged_text)
                 (tr @ [Validate candidate])))"

definition tag_full_text :: "response option \<Rightarrow> string \<Rightarrow> exn + string" where
  "tag_full_text parsed_response text =
     (case valid_response parsed_response of
        Inl e \<Rightarrow> Inl e
      | Inr valid \<Rightarrow>
          if valid then
            (case parsed_response of
               None \<Rightarrow> Inr text
             | Some r \<Rightarrow>
                 (case extract_address_text_from_entities r text of
                    None \<Rightarrow> Inr text
                  | Some address_text \<Rightarrow> Inr (replace text address_text (wrap address_text))))
          else Inr text)"

definition tag_addresses_traced ::
    "parser \<Rightarrow> net \<Rightarrow> string \<Rightarrow> (exn + string) \<times> event list" where
  "tag_addresses_traced self net text =
     (if text = [] \<or> strip text = [] then (Inr text, [])
      else case find_address_candidates text of
             [] \<Rightarrow>
               (case parse_address_with_shipengine self net text of
                  Inl e \<Rightarrow> (Inl e, [Scan text, Validate text])
                | Inr parsed_response \<Rightarrow>
                    (tag_full_text parsed_response text, [Scan text, Validate text]))
           | c # cs \<Rightarrow> tag_loop self net (c # cs) text [Scan text])"

definition tag_addresses_in_text :: "parser \<Rightarrow> net \<Rightarrow> string \<Rightarrow> exn + string" where
  "tag_addresses_in_text self net text = fst (tag_addresses_traced self net text)"


section \<open>The link renderer (\<open>geo_ner/tagged_text_to_geotext.py\<close>)\<close>

text \<open>\<open>(GPE|LOC|address)\<close> as group 1, and an attribute \<open>\s+name="([^"]+)"\<close> whose
  value is group \<open>n\<close>.\<close>

definition kind_re :: re where
  \<open>kind_re = Grp 1 (alts [Str ''GPE'', Str ''LOC'', Str ''address''])\<close>

definition attr_re :: "string \<Rightarrow> nat \<Rightarrow> re list" where
  \<open>attr_re name n =
     [Rep True 1 None is_space, Str (name @ ''="''), Grp n (Rep True 1 None (none_of ''"'')),
      Str ''"'']\<close>

text \<open>\<open>>([^<]+)</\1>\<close> with the inner text as group \<open>n\<close>.\<close>

definition body_re :: "nat \<Rightarrow> re list" where
  \<open>body_re n = [Str ''>'', Grp n (Rep True 1 None (none_of ''<'')), Str ''</'', Back 1, Str ''>'']\<close>

definition pattern :: re where
  \<open>pattern =
     seqs ([Str ''<'', kind_re] @ attr_re ''lat'' 2 @ attr_re ''lon'' 3
           @ attr_re ''zoom_level'' 4 @ body_re 5)\<close>

definition legacy_pattern :: re where
  \<open>legacy_pattern =
     seqs ([Str ''<'', kind_re] @ attr_re ''lat'' 2 @ attr_re ''lon'' 3 @ body_re 4)\<close>

definition simple_pattern :: re where
  \<open>simple_pattern = seqs ([Str ''<'', kind_re] @ body_re 2)\<close>

definition address_pattern :: re where
  \<open>address_pattern =
     seqs [Str ''<address>'', Grp 1 (Rep True 1 None (none_of ''<'')), Str ''</address>'']\<close>

definition map_url :: "string \<Rightarrow> string \<Rightarrow> string \<Rightarrow> string" where
  \<open>map_url lon lat zoom_level =
     ''https://www.arcgis.com/apps/mapviewer/index.html?center='' @ lon @ '','' @ lat
     @ ''&level='' @ zoom_level @ ''&marker='' @ lon @ '','' @ lat\<close>

definition anchor :: "string \<Rightarrow> string \<Rightarrow> string" where
  \<open>anchor url entity_text =
     ''<a href="'' @ url @ ''" target="_blank">'' @ entity_text @ ''</a>''\<close>

definition replace_with_html_link :: "rmatch \<Rightarrow> string" where
  "replace_with_html_link m =
     (let lat = group 2 m; lon = group 3 m; zoom_level = group 4 m; entity_text = group 5 m
      in if lat = ''none'' \<or> lon = ''none'' \<or> zoom_level = ''none'' then entity_text
         else anchor (map_url lon lat zoom_level) entity_text)"

definition replace_legacy_with_html_link :: "rmatch \<Rightarrow> string" where
  "replace_legacy_with_html_link m =
     (let lat = group 2 m; lon = group 3 m; entity_text = group 4 m
      in if lat = ''none'' \<or> lon = ''none'' then entity_text
         else anchor (map_url lon lat ''16'') entity_text)"

definition strip_simple_tags :: "string \<Rightarrow> string" where
  "strip_simple_tags html_text =
     (if 0 < length (finditer False simple_pattern html_text)
      then re_sub False simple_pattern (group 2) html_text else html_text)"

definition strip_address_tags :: "string \<Rightarrow> string" where
  "strip_address_tags html_text =
     (if 0 < length (finditer False address_pattern html_text)
      then re_sub False address_pattern (group 1) html_text else html_text)"

definition transform_xml_to_html_links :: "string \<Rightarrow> string" where
  "transform_xml_to_html_links geocoded_text =
     strip_address_tags
       (strip_simple_tags
          (re_sub False legacy_pattern replace_legacy_with_html_link
             (re_sub False pattern replace_with_html_link geocoded_text)))"


section \<open>Properties of the matcher and of the scan\<close>

text \<open>An expression that cannot match without reading a digit.\<close>

fun needs_digit :: "re \<Rightarrow> bool" where
  "needs_digit (Rep g lo hi p) = (0 < lo \<and> p = is_digit)"
| "needs_digit (Seq a b) = (needs_digit a \<or> needs_digit b)"
| "needs_digit (Alt a b) = (needs_digit a \<and> needs_digit b)"
| "needs_digit r = False"

lemma lower_char_digit: "is_digit (lower_char c) \<Longrightarrow> is_digit c"
  by (cases c) (auto simp: is_digit_def is_upper_az_def split: if_splits)

lemma upper_char_digit: "is_digit (upper_char c) \<Longrightarrow> is_digit c"
  by (cases c) (auto simp: is_digit_def is_lower_az_def split: if_splits)

lemma in_cls_digit: "in_cls ic is_digit c \<Longrightarrow> is_digit c"
  by (auto simp: in_cls_def split: if_splits dest: lower_char_digit upper_char_digit)

lemma go_needs_digit:
  "\<exists>r \<in> set k. needs_digit r \<Longrightarrow> \<forall>c \<in> set (rest st). \<not> is_digit c \<Longrightarrow> go ic k st = None"
proof (induction ic k st rule: go_induct)
  case (Cls ic p k st)
  then show ?case
    by (auto simp: go_eqs split: list.splits)
next
  case (Str ic s k st)
  then show ?case
    by (fastforce simp: go_eqs split: option.splits dest: eat_suffix set_mono_suffix)
next
  case (Alt ic a b k st)
  from Alt.prems have "go ic (a # k) st = None" "go ic (b # k) st = None"
    by (auto intro!: Alt.IH)
  then show ?case
    by (simp add: go_eqs)
next
  case (Rep ic g lo hi p k st)
  have more: "rep_more ic g lo hi p k st = None"
  proof (cases "rep_more ic g lo hi p k st")
    case (Some st')
    from rep_more_Some [OF Some] obtain c cs where r: "rest st = c # cs"
      and h: "hi \<noteq> Some 0" and i: "in_cls ic p c"
      and e: "rep_more ic g lo hi p k st
            = go ic (Rep g (lo - 1) (dec hi) p # k) (st\<lparr>prev := Some c, rest := cs\<rparr>)"
      by blast
    show ?thesis
    proof (cases "needs_digit (Rep g lo hi p)")
      case True
      with i have "is_digit c"
        by (auto dest: in_cls_digit)
      with r Rep.prems(2) show ?thesis
        by simp
    next
      case False
      with Rep.prems(1) have "\<exists>r \<in> set (Rep g (lo - 1) (dec hi) p # k). needs_digit r"
        by auto
      from Rep.IH(1) [OF r h i e this] Rep.prems(2) r e show ?thesis
        by simp
    qed
  qed simp
  have stop: "lo = 0 \<Longrightarrow> go ic k st = None"
  proof -
    assume lo: "lo = 0"
    with Rep.prems(1) have "\<exists>r \<in> set k. needs_digit r"
      by auto
    from Rep.IH(2) [OF lo this Rep.prems(2)] show ?thesis .
  qed
  from more stop show ?case
    by (cases g; cases "lo = 0"; simp add: go_eqs)
next
  case (Close ic n k st)
  then show ?case
    by (auto simp: go_eqs close_group_def split: option.splits)
next
  case (Back ic n k st)
  then show ?case
    by (fastforce simp: go_eqs split: option.splits dest: eat_suffix set_mono_suffix)
qed (auto simp: go_eqs)


lemma needs_digit_seqs: "\<exists>r \<in> set rs. needs_digit r \<Longrightarrow> needs_digit (seqs rs)"
  by (induction rs rule: seqs.induct) auto

lemma re_scan_needs_digit:
  "needs_digit r \<Longrightarrow> \<forall>c \<in> set s. \<not> is_digit c \<Longrightarrow> re_scan ic r pv s = map Inl s"
proof (induction s arbitrary: pv)
  case Nil
  then have "go ic [r] (start_state pv []) = None"
    by (intro go_needs_digit) (auto simp: start_state_def)
  then show ?case
    by (subst re_scan.simps) simp
next
  case (Cons c cs)
  then have "go ic [r] (start_state pv (c # cs)) = None"
    by (intro go_needs_digit) (auto simp: start_state_def)
  with Cons show ?case
    by (subst re_scan.simps) simp
qed

lemma search_from_needs_digit:
  "needs_digit r \<Longrightarrow> \<forall>c \<in> set s. \<not> is_digit c \<Longrightarrow> search_from ic r pv s = None"
proof (induction s arbitrary: pv)
  case Nil
  then have "go ic [r] (start_state pv []) = None"
    by (intro go_needs_digit) (auto simp: start_state_def)
  then show ?case
    by simp
next
  case (Cons c cs)
  then have "go ic [r] (start_state pv (c # cs)) = None"
    by (intro go_needs_digit) (auto simp: start_state_def)
  with Cons show ?case
    by simp
qed

lemma hits_map_Inl: "hits (map Inl s) = []"
  by (induction s) auto

lemma pieces_map_Inl: "pieces (map Inl s) = [s]"
  by (induction s) auto


lemma needs_digit_patterns:
  "needs_digit pattern_full" "needs_digit pattern_suite" "needs_digit pattern_po_box"
  "needs_digit pattern_simple" "needs_digit number_space"
  by (auto simp: pattern_full_def pattern_suite_def pattern_po_box_def pattern_simple_def
        number_space_def number_street_head_def intro!: needs_digit_seqs)


text \<open>The tokens of a scan, put together again, are the input.\<close>

fun untoken :: "(char + rmatch) list \<Rightarrow> string" where
  "untoken [] = []"
| "untoken (Inl c # ts) = c # untoken ts"
| "untoken (Inr m # ts) = group0 m @ untoken ts"

lemma group0_rest:
  "go ic k (start_state pv s) = Some st \<Longrightarrow> group0 (s, st) @ rest st = s"
  by (drule go_suffix) (auto simp: group0_def start_state_def suffix_def)

lemma untoken_re_scan: "untoken (re_scan ic r pv s) = s"
proof (induction ic r pv s rule: re_scan.induct)
  case (1 ic r pv s)
  show ?case
  proof (cases "go ic [r] (start_state pv s)")
    case None
    with 1 show ?thesis
      by (subst re_scan.simps) (auto split: list.splits)
  next
    case (Some st)
    note g = group0_rest [OF Some]
    show ?thesis
    proof (cases "length (rest st) < length s")
      case True
      with 1 Some g show ?thesis
        by (subst re_scan.simps) simp
    next
      case False
      with g have e: "group0 (s, st) = []"
        by (simp add: group0_def)
      with False Some 1 show ?thesis
        by (subst re_scan.simps) (auto split: list.splits)
    qed
  qed
qed

lemma hits_sublist: "m \<in> set (hits ts) \<Longrightarrow> sublist (group0 m) (untoken ts)"
proof (induction ts rule: hits.induct)
  case (3 m' ts)
  then show ?case
    by (auto intro: sublist_appendI [where ps = "[]", simplified] sublist_order.order.trans
        simp: sublist_append)
qed (auto intro: sublist_Cons_right [THEN iffD2])

lemma pieces_sublist:
  "\<exists>p ps. pieces ts = p # ps \<and> prefix p (untoken ts) \<and> (\<forall>q \<in> set ps. sublist q (untoken ts))"
proof (induction ts rule: pieces.induct)
  case (2 c ts)
  then show ?case
    by (auto simp: sublist_Cons_right)
next
  case (3 m ts)
  then show ?case
    by (auto simp: sublist_append dest: prefix_imp_sublist)
qed simp

lemma re_split_sublist: "p \<in> set (re_split ic r s) \<Longrightarrow> sublist p s"
  using pieces_sublist [of "re_scan ic r None s"]
  by (auto simp: re_split_def untoken_re_scan dest: prefix_imp_sublist)

lemma finditer_sublist: "m \<in> set (finditer ic r s) \<Longrightarrow> sublist (group0 m) s"
  using hits_sublist [of m "re_scan ic r None s"]
  by (simp add: finditer_def untoken_re_scan)

lemma sublist_strip: "sublist (strip s) s"
proof -
  have "suffix (dropWhile is_space s) s"
    by (rule suffix_dropWhile)
  moreover have "prefix (strip s) (dropWhile is_space s)"
    unfolding strip_def
    by (metis prefix_def rev_append rev_rev_ident takeWhile_dropWhile_id)
  ultimately show ?thesis
    by (meson prefix_imp_sublist sublist_order.order.trans suffix_imp_sublist)
qed

text \<open>An expression whose every match ends where \<open>$\<close> holds.\<close>

fun ends_eos :: "re \<Rightarrow> bool" where
  "ends_eos Eos = True"
| "ends_eos (Seq a b) = ends_eos b"
| "ends_eos (Alt a b) = (ends_eos a \<and> ends_eos b)"
| "ends_eos r = False"

lemma go_ends_eos:
  "go ic k st = Some st' \<Longrightarrow> k \<noteq> [] \<Longrightarrow> ends_eos (last k) \<Longrightarrow> at_end st'"
proof (induction ic k st arbitrary: st' rule: go_induct)
  case (Cls ic p k st)
  then show ?case
    by (cases k) (auto simp: go_eqs split: list.splits if_splits)
next
  case (Str ic s k st)
  then show ?case
    by (cases k) (auto simp: go_eqs split: option.splits)
next
  case (Seq ic a b k st)
  then show ?case
    by (cases k) (auto simp: go_eqs)
next
  case (Alt ic a b k st)
  then show ?case
    by (cases k) (auto simp: go_eqs split: option.splits)
next
  case (Rep ic g lo hi p k st)
  from Rep.prems(1) show ?case
  proof (cases rule: go_Rep_cases)
    case (more c cs)
    from Rep.prems(2,3) have "k \<noteq> []"
      by (cases k) auto
    with Rep.IH(1) [OF more(1-4) more(5)] Rep.prems(3) show ?thesis
      by simp
  next
    case stop
    from Rep.prems(2,3) have "k \<noteq> []"
      by (cases k) auto
    with Rep.IH(2) [OF stop] Rep.prems(3) show ?thesis
      by simp
  qed
next
  case (Eos ic k st)
  then show ?case
    by (cases k) (auto simp: go_eqs split: if_splits)
next
  case (Back ic n k st)
  then show ?case
    by (cases k) (auto simp: go_eqs split: option.splits)
qed (auto simp: go_eqs split: if_splits list.splits)

lemma trailing_punct_match:
  assumes "go False [trailing_punct] (start_state pv y) = Some st"
  shows "at_end st \<and> length (rest st) < length y"
proof -
  have "ends_eos trailing_punct"
    by (simp add: trailing_punct_def)
  with assms have "at_end st"
    by (auto dest: go_ends_eos)
  moreover from assms obtain c cs where y: "y = c # cs"
    and g: "go False [Rep True 0 None is_space, Eos]
              (start_state pv y\<lparr>prev := Some c, rest := cs\<rparr>) = Some st"
    by (auto simp: trailing_punct_def go_eqs start_state_def split: list.splits if_splits)
  from go_suffix [OF g] y have "length (rest st) < length y"
    by (auto dest: suffix_length_le)
  ultimately show ?thesis
    by simp
qed

lemma trailing_punct_empty: "go False [trailing_punct] (start_state pv []) = None"
  by (simp add: trailing_punct_def go_eqs start_state_def)

lemma trailing_scan_prefix:
  "y = [] \<or> \<not> is_space (last y) \<Longrightarrow>
     prefix (subst (\<lambda>_. []) (re_scan False trailing_punct pv y)) y"
proof (induction y arbitrary: pv)
  case Nil
  show ?case
    by (subst re_scan.simps) (simp add: trailing_punct_empty)
next
  case (Cons c cs)
  from Cons.prems have cs: "cs = [] \<or> \<not> is_space (last cs)"
    by (auto split: if_splits)
  show ?case
  proof (cases "go False [trailing_punct] (start_state pv (c # cs))")
    case None
    with Cons.IH [OF cs] show ?thesis
      by (subst re_scan.simps) simp
  next
    case (Some st)
    from trailing_punct_match [OF Some] have e: "at_end st"
      and l: "length (rest st) < length (c # cs)"
      by simp_all
    from go_suffix [OF Some] have sf: "suffix (rest st) (c # cs)"
      by (simp add: start_state_def)
    have "rest st = []"
    proof (rule ccontr)
      assume n: "rest st \<noteq> []"
      with e have r: "rest st = [CHR 0x0A]"
        by (simp add: at_end_def)
      with sf obtain zs where "c # cs = zs @ [CHR 0x0A]"
        by (auto simp: suffix_def)
      then have "last (c # cs) = CHR 0x0A"
        by (metis last_snoc)
      with Cons.prems show False
        by (simp add: is_space_def)
    qed
    with Some l show ?thesis
      by (subst re_scan.simps, simp, subst re_scan.simps) (simp add: trailing_punct_empty)
  qed
qed

lemma strip_last: "strip s = [] \<or> \<not> is_space (last (strip s))"
proof (cases "strip s = []")
  case False
  then have "rev (strip s) \<noteq> []"
    by simp
  then have "\<not> is_space (hd (rev (strip s)))"
    unfolding strip_def rev_rev_ident
    by (rule hd_dropWhile)
  with False show ?thesis
    by (simp add: hd_rev)
qed simp

lemma clean_candidate_sublist: "sublist (clean_candidate m) m"
proof -
  have "prefix (clean_candidate m) (strip m)"
    unfolding clean_candidate_def re_sub_def
    by (rule trailing_scan_prefix) (rule strip_last)
  with sublist_strip [of m] show ?thesis
    by (meson prefix_imp_sublist sublist_order.order.trans)
qed

lemma pooled_sublist: "c \<in> set (pooled_candidates text) \<Longrightarrow> sublist c text"
proof -
  assume "c \<in> set (pooled_candidates text)"
  then consider (pat) p m where "m \<in> set (finditer True p text)" "c = clean_candidate (group0 m)"
    | (sent) s where "s \<in> set (re_split False sentence_end text)" "c = strip s"
    by (auto simp: pooled_candidates_def pattern_candidates_def sentence_candidates_def)
  then show ?thesis
  proof cases
    case pat
    with finditer_sublist [OF pat(1)] clean_candidate_sublist [of "group0 m"] show ?thesis
      by (meson sublist_order.order.trans)
  next
    case sent
    with re_split_sublist [OF sent(1)] sublist_strip [of s] show ?thesis
      by (meson sublist_order.order.trans)
  qed
qed

lemma unique_loop_props:
  "set (unique_loop seen cs) \<subseteq> {c \<in> set cs. 15 < length c \<and> normalize c \<notin> seen}
   \<and> distinct (map normalize (unique_loop seen cs))
   \<and> subseq (unique_loop seen cs) cs
   \<and> normalize ` set (unique_loop seen cs) = normalize ` {c \<in> set cs. 15 < length c} - seen"
proof (induction cs arbitrary: seen)
  case Nil
  show ?case by simp
next
  case (Cons c cs)
  show ?case
  proof (cases "normalize c \<notin> seen \<and> 15 < length c")
    case True
    with Cons [of "insert (normalize c) seen"] show ?thesis
      by (auto simp: image_iff)
  next
    case False
    with Cons [of seen] show ?thesis
      by (auto simp: image_iff)
  qed
qed

text \<open>
  The words of the contract: of the pooled candidates that are longer than 15 characters,
  the first one of each normalized form, in the order of the pool.
\<close>

function first_of_each :: "string list \<Rightarrow> string list" where
  "first_of_each [] = []"
| "first_of_each (c # cs) =
     (if 15 < length c
      then c # first_of_each (filter (\<lambda>x. normalize x \<noteq> normalize c) cs)
      else first_of_each cs)"
  by pat_completeness auto
termination
  by (relation "measure length") (auto simp: less_Suc_eq_le)

lemma unique_loop_first_of_each:
  "unique_loop seen cs = first_of_each (filter (\<lambda>x. normalize x \<notin> seen) cs)"
proof (induction cs arbitrary: seen)
  case Nil
  show ?case by simp
next
  case (Cons c cs)
  have "filter (\<lambda>x. normalize x \<noteq> normalize c) (filter (\<lambda>x. normalize x \<notin> seen) cs)
      = filter (\<lambda>x. normalize x \<notin> insert (normalize c) seen) cs"
    by (auto intro: filter_cong)
  with Cons [of seen] Cons [of "insert (normalize c) seen"] show ?case
    by simp
qed

lemma unique_loop_first:
  "c \<in> set (unique_loop seen cs) \<Longrightarrow>
     List.find (\<lambda>x. 15 < length x \<and> normalize x \<notin> seen \<and> normalize x = normalize c) cs = Some c"
proof (induction cs arbitrary: seen)
  case Nil
  then show ?case by simp
next
  case (Cons a cs)
  show ?case
  proof (cases "normalize a \<notin> seen \<and> 15 < length a")
    case keep: True
    show ?thesis
    proof (cases "c = a")
      case True
      with keep show ?thesis by simp
    next
      case False
      with keep Cons.prems have m: "c \<in> set (unique_loop (insert (normalize a) seen) cs)"
        by simp
      with unique_loop_props [of "insert (normalize a) seen" cs]
      have n: "normalize c \<noteq> normalize a"
        by auto
      have "List.find (\<lambda>x. 15 < length x \<and> normalize x \<notin> seen \<and> normalize x = normalize c) cs
          = List.find (\<lambda>x. 15 < length x \<and> normalize x \<notin> insert (normalize a) seen
                            \<and> normalize x = normalize c) cs"
        using n by (intro find_cong) auto
      with Cons.IH [OF m] n show ?thesis
        by auto
    qed
  next
    case False
    with Cons.prems have "c \<in> set (unique_loop seen cs)"
      by auto
    from Cons.IH [OF this] False show ?thesis
      by auto
  qed
qed

section \<open>Tagged texts\<close>

text \<open>
  The texts the renderer is specified on: a sequence of pieces, each a stretch of plain
  text, an anchor that is already there, a tag of the current schema (kind, latitude,
  longitude, zoom level, inner text), a tag of the legacy schema (kind, latitude,
  longitude, inner text) or a tag without coordinates. \<open>show_seg\<close> writes a piece as the
  tag schema of the interface has it.
\<close>

datatype kind = GPE | LOC | ADDRESS

fun kind_name :: "kind \<Rightarrow> string" where
  "kind_name GPE = ''GPE''"
| "kind_name LOC = ''LOC''"
| "kind_name ADDRESS = ''address''"

datatype seg =
    Plain string
  | Link string string
  | Cur kind string string string string
  | Leg kind string string string
  | Bare kind string

fun show_seg :: "seg \<Rightarrow> string" where
  \<open>show_seg (Plain s) = s\<close>
| \<open>show_seg (Link url t) = anchor url t\<close>
| \<open>show_seg (Cur k lat lon z t) =
     ''<'' @ kind_name k @ '' lat="'' @ lat @ ''" lon="'' @ lon @ ''" zoom_level="'' @ z @ ''">''
     @ t @ ''</'' @ kind_name k @ ''>''\<close>
| \<open>show_seg (Leg k lat lon t) =
     ''<'' @ kind_name k @ '' lat="'' @ lat @ ''" lon="'' @ lon @ ''">''
     @ t @ ''</'' @ kind_name k @ ''>''\<close>
| \<open>show_seg (Bare k t) = ''<'' @ kind_name k @ ''>'' @ t @ ''</'' @ kind_name k @ ''>''\<close>




text \<open>Plain text: a \<open><\<close> in it is followed by a character, and this is none of \<open>G\<close>,
  \<open>L\<close> and \<open>a\<close>, with which a tag or an anchor begins.\<close>

fun plain_ok :: "string \<Rightarrow> bool" where
  "plain_ok [] = True"
| "plain_ok [c] = (c \<noteq> CHR ''<'')"
| "plain_ok (c # d # s) =
     ((c = CHR ''<'' \<longrightarrow> d \<noteq> CHR ''G'' \<and> d \<noteq> CHR ''L'' \<and> d \<noteq> CHR ''a'') \<and> plain_ok (d # s))"



text \<open>The passes of the renderer, piece by piece: the first resolves the tags of the
  current schema, the second those of the legacy schema, the third the tags without
  coordinates. \<open>level\<close> tells which pass a piece waits for.\<close>

fun level :: "seg \<Rightarrow> nat" where
  "level (Plain s) = 0"
| "level (Link url t) = 0"
| "level (Bare k t) = 1"
| "level (Leg k lat lon t) = 2"
| "level (Cur k lat lon z t) = 3"





subsection \<open>Matching a tag\<close>

lemma eat_self:
  "eat False s pv (s @ r) = Some (if s = [] then pv else Some (last s), r)"
  by (induction s arbitrary: pv) (simp_all add: same_char_def)

lemma option_case_id: "(case x of None \<Rightarrow> None | Some r \<Rightarrow> Some r) = x"
  by (cases x) simp_all

text \<open>A greedy repetition before an expression that rejects the characters of the class
  reads the whole run.\<close>

lemma go_rep_all:
  assumes "\<forall>c \<in> set xs. p c"
    and "w = [] \<or> \<not> p (hd w)"
    and "\<And>st'. \<exists>c cs. rest st' = c # cs \<and> p c \<Longrightarrow> go False k st' = None"
    and "lo \<le> length xs"
    and "rest st = xs @ w"
  shows "go False (Rep True lo None p # k) st
         = go False k (st\<lparr>prev := (if xs = [] then prev st else Some (last xs)), rest := w\<rparr>)"
  using assms(1,4,5)
proof (induction xs arbitrary: st lo)
  case Nil
  then have lo: "lo = 0" and r: "rest st = w"
    by simp_all
  have "rep_more False True lo None p k st = None"
    using assms(2) r by (cases w) (auto simp: rep_more_def in_cls_def)
  with lo have "go False (Rep True lo None p # k) st = go False k st"
    by (simp add: go_eqs)
  moreover from r have "st\<lparr>prev := prev st, rest := w\<rparr> = st"
    by (cases st) auto
  ultimately show ?case
    by (simp only: refl if_True)
next
  case (Cons x xs)
  let ?st1 = "st\<lparr>prev := Some x, rest := xs @ w\<rparr>"
  from Cons.prems have more: "rep_more False True lo None p k st
      = go False (Rep True (lo - 1) None p # k) ?st1"
    by (simp add: rep_more_def in_cls_def dec_def)
  from Cons.prems have "go False (Rep True (lo - 1) None p # k) ?st1
      = go False k (?st1\<lparr>prev := (if xs = [] then prev ?st1 else Some (last xs)), rest := w\<rparr>)"
    by (intro Cons.IH) auto
  also have "\<dots> = go False k (st\<lparr>prev := Some (last (x # xs)), rest := w\<rparr>)"
    by simp
  finally have m: "rep_more False True lo None p k st
      = go False k (st\<lparr>prev := Some (last (x # xs)), rest := w\<rparr>)"
    using more by simp
  from Cons.prems have "go False k st = None"
    by (intro assms(3)) auto
  with m show ?case
    by (simp add: go_eqs option_case_id split: option.splits)
qed

text \<open>An expression is dead at a text when it matches at its start in no context, and
  inert on a stretch when it is dead at every position of the stretch.\<close>

definition dead :: "re \<Rightarrow> string \<Rightarrow> bool" where
  "dead r t = (\<forall>pv. go False [r] (start_state pv t) = None)"

definition inert :: "re \<Rightarrow> string \<Rightarrow> string \<Rightarrow> bool" where
  "inert r s w = (\<forall>t. t \<noteq> [] \<and> suffix t s \<longrightarrow> dead r (t @ w))"



lemma inert_append: "inert r a (b @ w) \<Longrightarrow> inert r b w \<Longrightarrow> inert r (a @ b) w"
  unfolding inert_def
proof (intro allI impI)
  fix t
  assume a: "\<forall>t. t \<noteq> [] \<and> suffix t a \<longrightarrow> dead r (t @ b @ w)"
    and b: "\<forall>t. t \<noteq> [] \<and> suffix t b \<longrightarrow> dead r (t @ w)"
    and t: "t \<noteq> [] \<and> suffix t (a @ b)"
  then have "suffix t b \<or> (\<exists>xs. suffix xs a \<and> t = xs @ b)"
    by (auto simp: suffix_append)
  then consider "suffix t b" | xs where "suffix xs a" "t = xs @ b" "xs \<noteq> []"
    by (metis append_Nil suffix_order.refl)
  then show "dead r (t @ w)"
  proof cases
    case 1
    with b t show ?thesis by simp
  next
    case 2
    with a show ?thesis by simp
  qed
qed



text \<open>The literal character with which every match of a continuation begins.\<close>

function (sequential) first_lit :: "re list \<Rightarrow> char option" where
  "first_lit (Str (c # l) # k) = Some c"
| "first_lit (Seq a b # k) = first_lit (a # b # k)"
| "first_lit (Close n # k) = first_lit k"
| "first_lit (Open n # k) = first_lit k"
| "first_lit k = None"
  by pat_completeness auto
termination
  by (relation "measure (\<lambda>k. sum_list (map (\<lambda>r. 2 * size r + 1) k))") auto

lemma go_first_lit:
  "first_lit k = Some d \<Longrightarrow> rest st = c # cs \<Longrightarrow> c \<noteq> d \<Longrightarrow> go False k st = None"
proof (induction k arbitrary: st rule: first_lit.induct)
  case (1 c' l k)
  then show ?case
    by (simp add: go_eqs same_char_def)
next
  case (2 a b k)
  then show ?case
    by (simp add: go_eqs)
next
  case (3 n k)
  have "rest (close_group n st) = rest st"
    by (simp add: close_group_def split: option.splits)
  with 3 show ?case
    by (simp add: go_eqs)
next
  case (4 n k)
  then show ?case
    by (simp add: go_eqs)
qed simp_all

lemma go_rep_until:
  assumes "first_lit k = Some d" "\<not> p d" "\<forall>c \<in> set xs. p c" "lo \<le> length xs"
  shows "go False (Rep True lo None p # k) \<lparr>prev = pv, rest = xs @ d # r, marks = m, caps = cp\<rparr>
         = go False k \<lparr>prev = (if xs = [] then pv else Some (last xs)), rest = d # r,
                        marks = m, caps = cp\<rparr>"
proof -
  have "go False k st' = None" if "\<exists>c cs. rest st' = c # cs \<and> p c" for st'
    using that assms(1,2) by (auto intro: go_first_lit)
  from go_rep_all [where st = "\<lparr>prev = pv, rest = xs @ d # r, marks = m, caps = cp\<rparr>"
      and w = "d # r", OF assms(3) _ this assms(4)] assms(2)
  show ?thesis
    by simp
qed

lemma go_rep_in:
  "in_cls False p c \<Longrightarrow>
   go False (Rep True lo None p # k) \<lparr>prev = pv, rest = c # cs, marks = m, caps = cp\<rparr>
   = (case go False (Rep True (lo - 1) None p # k) \<lparr>prev = Some c, rest = cs, marks = m, caps = cp\<rparr> of
        Some r \<Rightarrow> Some r
      | None \<Rightarrow> if lo = 0 then go False k \<lparr>prev = pv, rest = c # cs, marks = m, caps = cp\<rparr>
                else None)"
  by (simp add: go_eqs rep_more_def dec_def)

lemma go_rep_out:
  "\<not> in_cls False p c \<Longrightarrow>
   go False (Rep True lo None p # k) \<lparr>prev = pv, rest = c # cs, marks = m, caps = cp\<rparr>
   = (if lo = 0 then go False k \<lparr>prev = pv, rest = c # cs, marks = m, caps = cp\<rparr> else None)"
  by (simp add: go_eqs rep_more_def dec_def)

lemmas run_eqs = go.simps(1-6) go.simps(8-12) go_rep_until go_rep_in go_rep_out
  option_case_id start_state_def close_group_def same_char_def in_cls_def none_of_def
  is_space_def Grp_def Suc_le_eq


lemmas pat_defs = pattern_def legacy_pattern_def simple_pattern_def address_pattern_def
  kind_re_def attr_re_def body_re_def



lemma dead_close:
  "dead pattern (CHR ''<'' # CHR ''/'' # t)"
  "dead legacy_pattern (CHR ''<'' # CHR ''/'' # t)"
  "dead simple_pattern (CHR ''<'' # CHR ''/'' # t)"
  "dead address_pattern (CHR ''<'' # CHR ''/'' # t)"
  by (simp_all add: dead_def pat_defs run_eqs)











lemma plain_ok_append: "plain_ok a \<Longrightarrow> plain_ok b \<Longrightarrow> plain_ok (a @ b)"
proof (induction a rule: plain_ok.induct)
  case (2 c)
  then show ?case by (cases b) auto
qed auto


lemma plain_ok_Cons: "c \<noteq> CHR ''<'' \<Longrightarrow> plain_ok (c # s) = plain_ok s"
  by (cases s) auto

lemma plain_ok_close: "plain_ok b \<Longrightarrow> plain_ok (CHR ''<'' # CHR ''/'' # b)"
  by (simp add: plain_ok_Cons)

















lemma show_seg_nonempty: "level x > 0 \<Longrightarrow> show_seg x \<noteq> []"
  by (cases x) simp_all















section \<open>Evaluation at concrete texts\<close>

text \<open>A parser in offline mode, a parser in remote mode, and a service that answers
  every request with status 500.\<close>

definition offline_parser :: parser where
  "offline_parser = \<lparr>api_key = [], base_url = ''https://api.shipengine.com'', mock_mode = True\<rparr>"

definition remote_parser :: parser where
  "remote_parser = \<lparr>api_key = ''key'', base_url = ''https://api.shipengine.com'', mock_mode = False\<rparr>"

definition net_status :: "nat \<Rightarrow> net" where
  "net_status n = (\<lambda>url text. Inr \<lparr>status_code = n, json = Inl JSONDecodeError\<rparr>)"

definition net_raise :: "exn \<Rightarrow> net" where
  "net_raise e = (\<lambda>url text. Inl e)"

definition net_json :: "exn + payload \<Rightarrow> net" where
  "net_json j = (\<lambda>url text. Inr \<lparr>status_code = 200, json = j\<rparr>)"

lemma signals_1_St: "has_number ''1 St''" "has_street ''1 St''"
  by code_simp+

lemma mock_1_St: "mock_address_validation ''1 St'' \<noteq> None"
  by (simp add: mock_address_validation_def signals_1_St)

lemma parse_offline:
  "mock_mode self \<Longrightarrow> parse_address_with_shipengine self net t = Inr (mock_address_validation t)"
  by (simp add: parse_address_with_shipengine_def)

lemma main_street_signals:
  "has_number ''123 Main Street, Anytown, CA 90210''"
  "has_street ''123 Main Street, Anytown, CA 90210''"
  "has_city_state_zip ''123 Main Street, Anytown, CA 90210''"
  "\<not> has_po_box ''123 Main Street, Anytown, CA 90210''"
  by code_simp+

lemma main_street_address:
  "mock_address ''123 Main Street, Anytown, CA 90210'' =
     \<lparr>address_line1 = Some ''123 Main Street'', city_locality = Some ''Anytown'',
      state_province = Some ''CA'', postal_code = Some ''90210'', country_code = Some ''US''\<rparr>"
  by code_simp

lemma main_street_candidates:
  "find_address_candidates ''123 Main Street, Anytown, CA 90210'' =
     [''123 Main Street, Anytown, CA 90210'']"
  by code_simp

lemma main_street_strings:
  "strip ''123 Main Street, Anytown, CA 90210'' \<noteq> []"
  "\<not> contains ''123 Main Street, Anytown, CA 90210'' (wrap ''123 Main Street, Anytown, CA 90210'')"
  "replace ''123 Main Street, Anytown, CA 90210'' ''123 Main Street, Anytown, CA 90210''
     (wrap ''123 Main Street, Anytown, CA 90210'')
   = ''<address>123 Main Street, Anytown, CA 90210</address>''"
  by code_simp+

lemma main_street_valid:
  "valid_response (mock_address_validation ''123 Main Street, Anytown, CA 90210'') = Inr True"
  by (simp add: valid_response_def mock_address_validation_def main_street_signals
      main_street_address is_valid_address_def truthy_def mock_score_def)


lemma tagged_main_street_candidates:
  "find_address_candidates ''<address>123 Main Street, Anytown, CA 90210</address>'' =
     [''123 Main Street, Anytown, CA 90210'',
      ''<address>123 Main Street, Anytown, CA 90210</address>'']"
  by code_simp

lemma tagged_main_street_signals:
  "has_number ''<address>123 Main Street, Anytown, CA 90210</address>''"
  "has_street ''<address>123 Main Street, Anytown, CA 90210</address>''"
  by code_simp+

lemma tagged_main_street_address:
  "mock_address ''<address>123 Main Street, Anytown, CA 90210</address>'' =
     \<lparr>address_line1 = Some ''123 Main Street'', city_locality = Some ''Anytown'',
      state_province = Some ''CA'', postal_code = Some ''90210'', country_code = Some ''US''\<rparr>"
  by code_simp

lemma tagged_main_street_strings:
  "strip ''<address>123 Main Street, Anytown, CA 90210</address>'' \<noteq> []"
  "contains ''<address>123 Main Street, Anytown, CA 90210</address>''
     (wrap ''123 Main Street, Anytown, CA 90210'')"
  "\<not> contains ''<address>123 Main Street, Anytown, CA 90210</address>''
     (wrap ''<address>123 Main Street, Anytown, CA 90210</address>'')"
  "replace ''<address>123 Main Street, Anytown, CA 90210</address>''
     ''<address>123 Main Street, Anytown, CA 90210</address>''
     (wrap ''<address>123 Main Street, Anytown, CA 90210</address>'')
   = ''<address><address>123 Main Street, Anytown, CA 90210</address></address>''"
  by code_simp+

lemma po_box_candidates:
  "find_address_candidates ''123 Maple Street. P.O. Box 789, Reno, NV 89501'' =
     [''P.O. Box 789, Reno, NV 89501'', ''123 Maple Street'']"
  by code_simp

lemma po_box_positions:
  "find_pos ''123 Maple Street. P.O. Box 789, Reno, NV 89501'' ''P.O. Box 789, Reno, NV 89501'' = Some 18"
  "find_pos ''123 Maple Street. P.O. Box 789, Reno, NV 89501'' ''123 Maple Street'' = Some 0"
  by code_simp+









text \<open>A text without \<open><\<close> in which three accepted candidates lie inside one another: the
  match of the first pattern, that of the second and that of the PO-Box pattern.\<close>

lemma hwy_tagged:
  "tag_addresses_in_text offline_parser (net_status 500)
     ''1 A Hwy: 22 Oak Street PO Box 7 8 Elm St, Reno, NV 89501''
   = Inr ''<address>1 A Hwy: <address>22 Oak Street <address>PO Box 7 8 Elm St, Reno, NV 89501</address></address></address>''"
  by code_simp

lemma hwy_render:
  "transform_xml_to_html_links
     ''<address>1 A Hwy: <address>22 Oak Street <address>PO Box 7 8 Elm St, Reno, NV 89501</address></address></address>''
   = ''<address>1 A Hwy: 22 Oak Street PO Box 7 8 Elm St, Reno, NV 89501</address>''"
  by code_simp



section \<open>The validity predicate\<close>

text \<open>
  Claim C3. \<open>is_valid_address\<close> returns true exactly when the response carries an
  address whose \<open>address_line1\<close> is non-empty, at least one of city, state and postal
  code is non-empty, and the score is a number that is at least 0.5 (an absent score
  counts as 0). It raises, and only \<open>TypeError\<close>, exactly when these components are
  there and the score is present but no number. A response whose address has no address
  line, or that has no address, gives false whatever stands under its score.
\<close>

theorem is_valid_address_iff:
  "(is_valid_address r = Inr True \<longleftrightarrow>
      (\<exists>a x. address r = Some a \<and> truthy (address_line1 a)
           \<and> (truthy (city_locality a) \<or> truthy (state_province a) \<or> truthy (postal_code a))
           \<and> score r = Number x \<and> 1 / 2 \<le> x))
   \<and> (is_valid_address r = Inl e \<longleftrightarrow>
      (\<exists>a. address r = Some a \<and> truthy (address_line1 a)
           \<and> (truthy (city_locality a) \<or> truthy (state_province a) \<or> truthy (postal_code a))
           \<and> score r = NotNumber \<and> e = TypeError))
   \<and> is_valid_address (r\<lparr>score := sc, address := Some (a\<lparr>address_line1 := None\<rparr>)\<rparr>) = Inr False
   \<and> is_valid_address (r\<lparr>score := sc, address := Some (a\<lparr>address_line1 := Some []\<rparr>)\<rparr>)
       = Inr False
   \<and> is_valid_address (r\<lparr>score := sc, address := None\<rparr>) = Inr False"
  by (cases "address r"; cases "score r")
     (auto simp: is_valid_address_def truthy_def Let_def)

theorem is_valid_address_iff_witness:
  "is_valid_address \<lparr>score = Number 1,
      address = Some \<lparr>address_line1 = Some ''1 Elm St'', city_locality = Some ''Reno'',
                      state_province = None, postal_code = None, country_code = None\<rparr>,
      entities = None\<rparr> = Inr True
   \<and> is_valid_address \<lparr>score = NotNumber,
      address = Some \<lparr>address_line1 = Some ''1 Elm St'', city_locality = Some ''Reno'',
                      state_province = None, postal_code = None, country_code = None\<rparr>,
      entities = None\<rparr> = Inl TypeError
   \<and> is_valid_address \<lparr>score = NotNumber,
      address = Some \<lparr>address_line1 = Some [], city_locality = Some ''Reno'',
                      state_province = None, postal_code = None, country_code = None\<rparr>,
      entities = None\<rparr> = Inr False"
  using is_valid_address_iff
    [where r = "\<lparr>score = Number 1,
          address = Some \<lparr>address_line1 = Some ''1 Elm St'', city_locality = Some ''Reno'',
                          state_province = None, postal_code = None, country_code = None\<rparr>,
          entities = None\<rparr>"
       and sc = NotNumber
       and a = "\<lparr>address_line1 = Some ''1 Elm St'', city_locality = Some ''Reno'',
          state_province = None, postal_code = None, country_code = None\<rparr>"]
    is_valid_address_iff
    [where r = "\<lparr>score = NotNumber,
          address = Some \<lparr>address_line1 = Some ''1 Elm St'', city_locality = Some ''Reno'',
                          state_province = None, postal_code = None, country_code = None\<rparr>,
          entities = None\<rparr>"
       and e = TypeError]
  by (simp add: truthy_def)

section \<open>The offline scorer and the threshold\<close>

lemma mock_score_gate:
  "(has_number text \<and> has_street text) \<or> has_po_box text \<Longrightarrow> 1 / 2 \<le> mock_score text"
  by (auto simp: mock_score_def)

text \<open>
  Claim C9. Whenever the offline scorer returns a result, its score is at least 0.5,
  so the validity of the result depends on the extracted components alone: the result
  is valid exactly when its address line and one of city, state and postal code are
  non-empty.
\<close>

theorem mock_score_at_least_half:
  assumes "mock_address_validation text = Some r"
  shows "\<exists>s a. score r = Number s \<and> 1 / 2 \<le> s \<and> address r = Some a
           \<and> is_valid_address r
               = Inr (truthy (address_line1 a)
                      \<and> (truthy (city_locality a) \<or> truthy (state_province a)
                          \<or> truthy (postal_code a)))"
proof -
  from assms have gate: "(has_number text \<and> has_street text) \<or> has_po_box text"
    by (auto simp: mock_address_validation_def split: if_splits)
  from assms gate have r: "r = \<lparr>score = Number (mock_score text),
      address = Some (mock_address text), entities = None\<rparr>"
    by (auto simp: mock_address_validation_def split: if_splits)
  from gate have "1 / 2 \<le> mock_score text"
    by (rule mock_score_gate)
  with r show ?thesis
    by (auto simp: is_valid_address_def Let_def)
qed

theorem mock_score_at_least_half_witness:
  "\<exists>r s. mock_address_validation ''1 St'' = Some r \<and> score r = Number s \<and> 1 / 2 \<le> s"
proof -
  from mock_1_St obtain r where r: "mock_address_validation ''1 St'' = Some r"
    by auto
  from mock_score_at_least_half [OF r] r show ?thesis
    by blast
qed

section \<open>Empty and blank input\<close>

lemma strip_blank: "\<forall>c \<in> set text. is_space c \<Longrightarrow> strip text = []"
  by (auto simp: strip_def dest: set_dropWhileD)

text \<open>
  Claim C10. On an input that is empty or consists of whitespace only the tagger returns
  the input unchanged, and it calls neither the scanner nor the validator.
\<close>

theorem tag_blank_unchanged:
  assumes "\<forall>c \<in> set text. is_space c"
  shows "tag_addresses_traced self net text = (Inr text, [])
         \<and> tag_addresses_in_text self net text = Inr text"
  using strip_blank [OF assms]
  by (simp add: tag_addresses_traced_def tag_addresses_in_text_def)

theorem tag_blank_unchanged_witness:
  "tag_addresses_traced remote_parser (net_status 500) [CHR '' '', CHR 0x0A] = (Inr [CHR '' '', CHR 0x0A], [])
   \<and> tag_addresses_traced remote_parser (net_status 500) [] = (Inr [], [])"
proof -
  have "\<forall>c \<in> set [CHR '' '', CHR 0x0A]. is_space c"
    by (simp add: is_space_def)
  then show ?thesis
    using tag_blank_unchanged [of "[CHR '' '', CHR 0x0A]" remote_parser "net_status 500"]
      tag_blank_unchanged [of "[]" remote_parser "net_status 500"]
    by simp
qed


section \<open>Texts without digits\<close>

text \<open>
  Claim C8. On a text that contains no digit character the scanner returns the empty
  sequence: each of the four patterns and the sentence rule has to read a digit.
\<close>

theorem no_digit_no_candidates:
  assumes "\<forall>c \<in> set text. \<not> is_digit c"
  shows "find_address_candidates text = []"
proof -
  have "pattern_candidates text pat = []" if "needs_digit pat" for pat
    using that assms
    by (simp add: pattern_candidates_def finditer_def re_scan_needs_digit hits_map_Inl)
  then have tiers: "concat (map (pattern_candidates text) address_patterns) = []"
    by (simp add: address_patterns_def needs_digit_patterns)
  have "\<not> sentence_ok s" if "set s \<subseteq> set text" for s
  proof -
    from that assms have "\<forall>c \<in> set s. \<not> is_digit c"
      by auto
    then have "re_search False number_space s = None"
      by (simp add: re_search_def search_from_needs_digit needs_digit_patterns)
    then show ?thesis
      by (simp add: sentence_ok_def found_def)
  qed
  moreover have "set (strip p) \<subseteq> set text" if "p \<in> set (re_split False sentence_end text)" for p
    using re_split_sublist [OF that] sublist_strip [of p]
    by (meson set_mono_sublist subset_trans)
  ultimately have "sentence_candidates text = []"
    by (auto simp: sentence_candidates_def filter_empty_conv)
  then show ?thesis
    unfolding find_address_candidates_def pooled_candidates_def tiers by simp
qed

theorem no_digit_no_candidates_witness:
  "find_address_candidates ''Elm Street, Reno'' = []"
proof -
  have "\<forall>c \<in> set ''Elm Street, Reno''. \<not> is_digit c"
    by (simp add: is_digit_def)
  then show ?thesis
    by (rule no_digit_no_candidates)
qed


section \<open>Failures of the recognition service\<close>

text \<open>
  Claim C1 says that every failure of the remote call is answered by the offline
  scorer. On status 500 the code logs a warning and returns \<open>None\<close>, while the
  offline scorer accepts the text \<open>1 St\<close>.
\<close>

theorem parse_status_500_counterexample:
  "parse_address_with_shipengine remote_parser (net_status 500) ''1 St'' = Inr None
   \<and> parse_address_with_shipengine remote_parser (net_status 500) ''1 St''
       \<noteq> Inr (mock_address_validation ''1 St'')"
  using mock_1_St
  by (auto simp: parse_address_with_shipengine_def remote_parser_def net_status_def)

text \<open>
  Claim C1, amended. In remote mode, status 401, status 402 and every exception that is a
  \<open>RequestException\<close> (raised by the request or by the decoding of its payload) are
  answered by the offline scorer; every status other than 200, 401 and 402 and a
  decoding error that is no \<open>RequestException\<close> give \<open>None\<close>. In all these cases a
  value is returned and no exception reaches the caller.
\<close>

theorem parse_failure_fallback:
  assumes "\<not> mock_mode self"
    and "url = base_url self @ ''/v1/addresses/recognize''"
  shows "(\<forall>e. net url text = Inl e \<and> is_request_exception e \<longrightarrow>
            parse_address_with_shipengine self net text = Inr (mock_address_validation text))
       \<and> (\<forall>resp. net url text = Inr resp \<and> (status_code resp = 401 \<or> status_code resp = 402) \<longrightarrow>
            parse_address_with_shipengine self net text = Inr (mock_address_validation text))
       \<and> (\<forall>resp e. net url text = Inr resp \<and> status_code resp = 200 \<and> json resp = Inl e
              \<and> is_request_exception e \<longrightarrow>
            parse_address_with_shipengine self net text = Inr (mock_address_validation text))
       \<and> (\<forall>resp. net url text = Inr resp \<and> status_code resp \<notin> {200, 401, 402} \<longrightarrow>
            parse_address_with_shipengine self net text = Inr None)
       \<and> (\<forall>e. net url text = Inl e \<and> is_json_decode_error e \<and> \<not> is_request_exception e \<longrightarrow>
            parse_address_with_shipengine self net text = Inr None)
       \<and> (\<forall>resp e. net url text = Inr resp \<and> status_code resp = 200 \<and> json resp = Inl e
              \<and> is_json_decode_error e \<and> \<not> is_request_exception e \<longrightarrow>
            parse_address_with_shipengine self net text = Inr None)"
  using assms
  by (auto simp: parse_address_with_shipengine_def handle_def)

theorem parse_failure_fallback_witness:
  "parse_address_with_shipengine remote_parser (net_raise RequestException) ''1 St''
     = Inr (mock_address_validation ''1 St'')
   \<and> parse_address_with_shipengine remote_parser (net_status 401) ''1 St''
     = Inr (mock_address_validation ''1 St'')
   \<and> parse_address_with_shipengine remote_parser (net_status 402) ''1 St''
     = Inr (mock_address_validation ''1 St'')
   \<and> parse_address_with_shipengine remote_parser (net_json (Inl RequestsJSONDecodeError)) ''1 St''
     = Inr (mock_address_validation ''1 St'')
   \<and> parse_address_with_shipengine remote_parser (net_status 503) ''1 St'' = Inr None
   \<and> parse_address_with_shipengine remote_parser (net_json (Inl JSONDecodeError)) ''1 St''
     = Inr None"
proof -
  have m: "\<not> mock_mode remote_parser"
    by (simp add: remote_parser_def)
  note f = parse_failure_fallback [OF m refl]
  show ?thesis
    using f [of "net_raise RequestException" "''1 St''"]
      f [of "net_status 401" "''1 St''"] f [of "net_status 402" "''1 St''"]
      f [of "net_json (Inl RequestsJSONDecodeError)" "''1 St''"]
      f [of "net_status 503" "''1 St''"] f [of "net_json (Inl JSONDecodeError)" "''1 St''"]
    by (simp add: net_raise_def net_status_def net_json_def is_request_exception_def
        is_json_decode_error_def)
qed


section \<open>Scenario A\<close>

text \<open>
  Claim C5. On \<open>123 Main Street, Anytown, CA 90210\<close> the number, the street suffix and
  the City-ST-ZIP signal are present and the PO-Box signal is not, the offline score is
  0.3 + 0.4 + 0.3 = 1.0, which is at least 0.5, the result is valid, and the tagger in
  offline mode returns the text wrapped in one address tag.
\<close>

theorem scenario_a:
  assumes "mock_mode self"
  shows "has_number ''123 Main Street, Anytown, CA 90210''
       \<and> has_street ''123 Main Street, Anytown, CA 90210''
       \<and> has_city_state_zip ''123 Main Street, Anytown, CA 90210''
       \<and> \<not> has_po_box ''123 Main Street, Anytown, CA 90210''
       \<and> mock_score ''123 Main Street, Anytown, CA 90210'' = 3 / 10 + 4 / 10 + 3 / 10
       \<and> mock_score ''123 Main Street, Anytown, CA 90210'' = 1
       \<and> 1 / 2 \<le> mock_score ''123 Main Street, Anytown, CA 90210''
       \<and> valid_response (mock_address_validation ''123 Main Street, Anytown, CA 90210'')
           = Inr True
       \<and> tag_addresses_in_text self net ''123 Main Street, Anytown, CA 90210''
           = Inr ''<address>123 Main Street, Anytown, CA 90210</address>''"
proof -
  have "tag_addresses_in_text self net ''123 Main Street, Anytown, CA 90210''
           = Inr ''<address>123 Main Street, Anytown, CA 90210</address>''"
    by (simp add: tag_addresses_in_text_def tag_addresses_traced_def main_street_candidates
        parse_offline [OF assms] main_street_valid main_street_strings)
  then show ?thesis
    by (simp add: main_street_signals main_street_valid mock_score_def)
qed

theorem scenario_a_witness:
  "mock_score ''123 Main Street, Anytown, CA 90210'' = 1
   \<and> tag_addresses_in_text offline_parser (net_status 500) ''123 Main Street, Anytown, CA 90210''
       = Inr ''<address>123 Main Street, Anytown, CA 90210</address>''"
proof -
  have "mock_mode offline_parser"
    by (simp add: offline_parser_def)
  from scenario_a [OF this, of "net_status 500"] show ?thesis
    by simp
qed

section \<open>Tagging a text that is already tagged\<close>

text \<open>
  Claim C2 says that a text which already contains \<open><address>X</address>\<close> never comes
  out with the tag nested in itself. The guard of the loop compares the wrapped candidate
  only; the sentence rule proposes the whole tagged text as a second candidate, the offline
  scorer accepts it, and the tagger wraps it again.
\<close>

theorem tag_tagged_text_nests:
  "tag_addresses_in_text offline_parser net ''<address>123 Main Street, Anytown, CA 90210</address>''
     = Inr ''<address><address>123 Main Street, Anytown, CA 90210</address></address>''"
proof -
  have m: "mock_mode offline_parser"
    by (simp add: offline_parser_def)
  have v: "valid_response
      (mock_address_validation ''<address>123 Main Street, Anytown, CA 90210</address>'')
      = Inr True"
    by (simp add: valid_response_def mock_address_validation_def tagged_main_street_signals
        tagged_main_street_address is_valid_address_def truthy_def mock_score_def)
  show ?thesis
    by (simp add: tag_addresses_in_text_def tag_addresses_traced_def
        tagged_main_street_candidates parse_offline [OF m] main_street_valid v
        tagged_main_street_strings)
qed

section \<open>The order of the candidates\<close>

text \<open>
  Claim C4 says that the candidates come in the order of their first position in the
  text. The matches are pooled pattern by pattern: in the text below the PO-Box address,
  found by the third pattern at position 18, comes before the street address, found by
  the fourth pattern at position 0.
\<close>

theorem candidates_order_counterexample:
  "find_address_candidates ''123 Maple Street. P.O. Box 789, Reno, NV 89501''
     = [''P.O. Box 789, Reno, NV 89501'', ''123 Maple Street'']
   \<and> find_pos ''123 Maple Street. P.O. Box 789, Reno, NV 89501'' ''P.O. Box 789, Reno, NV 89501''
       = Some 18
   \<and> find_pos ''123 Maple Street. P.O. Box 789, Reno, NV 89501'' ''123 Maple Street'' = Some 0"
  by (simp add: po_box_candidates po_box_positions)


text \<open>
  Claim C4, amended. The scanner returns contiguous pieces of the text, each longer than
  15 characters and no two with the same normalized form (lowered, stripped, whitespace
  runs collapsed to one space). Their order is that of the pool: the matches of the first
  pattern, then those of the second, the third and the fourth, then the sentences. Of the
  pooled candidates longer than 15 characters, each normalized form keeps its first
  member and no other: the result is \<open>first_of_each\<close> of the pool.
\<close>

theorem candidates_contract:
  "(\<forall>c \<in> set (find_address_candidates text). sublist c text \<and> 15 < length c)
   \<and> distinct (map normalize (find_address_candidates text))
   \<and> subseq (find_address_candidates text) (pooled_candidates text)
   \<and> normalize ` set (find_address_candidates text)
       = normalize ` {c \<in> set (pooled_candidates text). 15 < length c}
   \<and> (\<forall>c \<in> set (find_address_candidates text).
         List.find (\<lambda>x. 15 < length x \<and> normalize x = normalize c) (pooled_candidates text)
           = Some c)
   \<and> find_address_candidates text = first_of_each (pooled_candidates text)"
  using unique_loop_props [of "{}" "pooled_candidates text"] pooled_sublist [of _ "text"]
    unique_loop_first [of _ "{}" "pooled_candidates text"]
    unique_loop_first_of_each [of "{}" "pooled_candidates text"]
  unfolding find_address_candidates_def by auto

theorem candidates_contract_witness:
  "sublist ''P.O. Box 789, Reno, NV 89501'' ''123 Maple Street. P.O. Box 789, Reno, NV 89501''
   \<and> sublist ''123 Maple Street'' ''123 Maple Street. P.O. Box 789, Reno, NV 89501''
   \<and> normalize ''P.O. Box 789, Reno, NV 89501'' \<noteq> normalize ''123 Maple Street''
   \<and> subseq [''P.O. Box 789, Reno, NV 89501'', ''123 Maple Street'']
        (pooled_candidates ''123 Maple Street. P.O. Box 789, Reno, NV 89501'')
   \<and> List.find (\<lambda>x. 15 < length x \<and> normalize x = normalize ''123 Maple Street'')
        (pooled_candidates ''123 Maple Street. P.O. Box 789, Reno, NV 89501'')
       = Some ''123 Maple Street''
   \<and> first_of_each (pooled_candidates ''123 Maple Street. P.O. Box 789, Reno, NV 89501'')
       = [''P.O. Box 789, Reno, NV 89501'', ''123 Maple Street'']"
proof -
  note c = candidates_contract [of "''123 Maple Street. P.O. Box 789, Reno, NV 89501''"]
  note c5 = c [THEN conjunct2, THEN conjunct2, THEN conjunct2, THEN conjunct2]
  have "first_of_each (pooled_candidates ''123 Maple Street. P.O. Box 789, Reno, NV 89501'')
       = [''P.O. Box 789, Reno, NV 89501'', ''123 Maple Street'']"
    using c5 [THEN conjunct2] by (simp add: po_box_candidates)
  moreover have "sublist ''P.O. Box 789, Reno, NV 89501''
         ''123 Maple Street. P.O. Box 789, Reno, NV 89501''
       \<and> sublist ''123 Maple Street'' ''123 Maple Street. P.O. Box 789, Reno, NV 89501''
       \<and> normalize ''P.O. Box 789, Reno, NV 89501'' \<noteq> normalize ''123 Maple Street''
       \<and> subseq [''P.O. Box 789, Reno, NV 89501'', ''123 Maple Street'']
            (pooled_candidates ''123 Maple Street. P.O. Box 789, Reno, NV 89501'')
       \<and> List.find (\<lambda>x. 15 < length x \<and> normalize x = normalize ''123 Maple Street'')
            (pooled_candidates ''123 Maple Street. P.O. Box 789, Reno, NV 89501'')
           = Some ''123 Maple Street''"
    using c [THEN conjunct1] c [THEN conjunct2, THEN conjunct1]
      c [THEN conjunct2, THEN conjunct2, THEN conjunct1] c5 [THEN conjunct1]
    by (simp add: po_box_candidates)
  ultimately show ?thesis
    by simp
qed


section \<open>Rendering the two tag schemas\<close>




section \<open>Tagging and then rendering\<close>


text \<open>
  What holds: the text has no \<open><\<close> and the validator accepts at most one of the candidates
  of the scanner. Then the tagger leaves the text as it is or wraps the occurrences of
  one piece of it, and the renderer takes these tags away. With several accepted
  candidates the tagger can put tags inside one another, and the renderer takes two
  levels away and no more (\<open>hwy_tagged\<close>, \<open>hwy_render\<close>).
\<close>
















end
